theory Spec2Isabelle
  imports Main "HOL-Library.AList"
begin

section \<open>JavaScript values and errors\<close>

text \<open>
  The engine is \<^verbatim>\<open>src/deployAppSyncResolvers.js\<close>. Its input is plain JSON-like data, so a
  JavaScript value is \<^verbatim>\<open>undefined\<close>, \<^verbatim>\<open>null\<close>, a boolean, a number, a string or an object
  (and a function, which an input does not hold but a property read can yield);
  the payload of an object is a parameter, because the three nesting levels of the
  \<^verbatim>\<open>resolvers\<close> input hold different things. An object is an association list in
  insertion order, which is the order in which \<^verbatim>\<open>for ... in\<close> enumerates its keys; the
  keys of a JavaScript object are unique.

  A string-valued field that may be absent is a \<open>string option\<close>, \<open>None\<close> being
  \<^verbatim>\<open>undefined\<close>. The empty string is falsy.
\<close>

datatype 'a js = Undefined | Null | Bool bool | Num int | Str string | Function | Object 'a

fun typeof :: "'a js \<Rightarrow> string" where
  "typeof Undefined = ''undefined''"
| "typeof Null = ''object''"
| "typeof (Bool b) = ''boolean''"
| "typeof (Num n) = ''number''"
| "typeof (Str s) = ''string''"
| "typeof Function = ''function''"
| "typeof (Object x) = ''object''"

fun truthy_js :: "'a js \<Rightarrow> bool" where
  "truthy_js Undefined = False"
| "truthy_js Null = False"
| "truthy_js (Bool b) = b"
| "truthy_js (Num n) = (n \<noteq> 0)"
| "truthy_js (Str s) = (s \<noteq> [])"
| "truthy_js Function = True"
| "truthy_js (Object x) = True"

text \<open>The keys \<^verbatim>\<open>for (const k in v)\<close> enumerates: none unless \<open>v\<close> is an object. (A string
  primitive would enumerate its indices, but every value the engine loops over has
  passed a \<^verbatim>\<open>typeof v === 'object'\<close> check or is an object the engine built itself.)\<close>

fun entries :: "(string \<times> 'a) list js \<Rightarrow> (string \<times> 'a) list" where
  "entries (Object kvs) = kvs"
| "entries v = []"

definition truthy :: "string option \<Rightarrow> bool" where
  "truthy s = (case s of None \<Rightarrow> False | Some v \<Rightarrow> v \<noteq> [])"

definition truthy_num :: "int option \<Rightarrow> bool" where
  "truthy_num n = (case n of None \<Rightarrow> False | Some v \<Rightarrow> v \<noteq> 0)"

text \<open>\<^verbatim>\<open>a || b\<close> on possibly absent strings.\<close>

definition js_or :: "string option \<Rightarrow> string option \<Rightarrow> string option" where
  "js_or a b = (if truthy a then a else b)"

text \<open>\<^verbatim>\<open>s.includes(sub)\<close>.\<close>

fun str_includes :: "string \<Rightarrow> string \<Rightarrow> bool" where
  "str_includes [] sub = (sub = [])"
| "str_includes (c # s) sub = (take (length sub) (c # s) = sub \<or> str_includes s sub)"

text \<open>An error of the remote service carries a \<^verbatim>\<open>code\<close> and a \<^verbatim>\<open>message\<close>; an
  \<^verbatim>\<open>Error\<close> the engine throws itself and a \<^verbatim>\<open>TypeError\<close> of the language have a
  message and no code.\<close>

datatype error = AwsError string string | Error string | TypeError string

fun err_code :: "error \<Rightarrow> string option" where
  "err_code (AwsError c m) = Some c"
| "err_code (Error m) = None"
| "err_code (TypeError m) = None"

fun err_message :: "error \<Rightarrow> string" where
  "err_message (AwsError c m) = m"
| "err_message (Error m) = m"
| "err_message (TypeError m) = m"

section \<open>The data model\<close>

text \<open>The fields of a resolver specification that the engine reads. \<^verbatim>\<open>authorizationConfig\<close>
  is an object of which only the presence is tested.\<close>

record resolver_spec =
  name :: "string option"
  lambda :: "string option"
  table :: "string option"
  tableRegion :: "string option"
  ttl :: "int option"
  syncTable :: "string option"
  syncTableTtl :: "int option"
  authorizationConfig :: "unit option"
  endpoint :: "string option"
  authorization :: "string option"
  signingRegion :: "string option"
  signingServiceName :: "string option"
  endpointRegion :: "string option"
  relationalDatabaseSourceType :: "string option"
  awsSecretStoreArn :: "string option"
  database :: "string option"
  dbClusterIdentifier :: "string option"
  schema :: "string option"
  request :: "string option"
  response :: "string option"

text \<open>\<^verbatim>\<open>resolverParams = { ...resolvers[type][field], apiId, roleName, type, field }\<close>.\<close>

record params = resolver_spec +
  apiId :: string
  roleName :: string
  type :: string
  field :: string

type_synonym desired = "(string \<times> (string \<times> resolver_spec js) list js) list js"

record config =
  region :: "string option"

datatype ds_type = AWS_LAMBDA | AMAZON_DYNAMODB | HTTP | AMAZON_ELASTICSEARCH | RELATIONAL_DATABASE

record delta_sync_config =
  baseTableTTL :: "int option"
  deltaSyncTableName :: "string option"
  deltaSyncTableTTL :: "int option"

datatype ds_config =
    LambdaConfig string
  | DynamodbConfig "string option" string "delta_sync_config option"
  | HttpConfig "string option" "string option" "string option" "string option"
  | ElasticsearchConfig "string option" "string option"
  | RelationalDatabaseConfig string "string option" "string option" "string option"
      "string option" "string option"

text \<open>\<^verbatim>\<open>dataSourceParams\<close>: the request payload of \<^verbatim>\<open>updateDataSource\<close> and
  \<^verbatim>\<open>createDataSource\<close>. The arguments of the configurations are, in the order of the
  source: \<^verbatim>\<open>lambdaFunctionArn\<close>; \<^verbatim>\<open>awsRegion, tableName, deltaSyncConfig\<close>;
  \<^verbatim>\<open>endpoint, authorizationType, signingRegion, signingServiceName\<close>;
  \<^verbatim>\<open>awsRegion, endpoint\<close>; \<^verbatim>\<open>relationalDatabaseSourceType, awsRegion, awsSecretStoreArn,
  databaseName, dbClusterIdentifier, schema\<close>.\<close>

record data_source_params =
  ds_apiId :: string
  ds_serviceRoleArn :: string
  ds_name :: "string option"
  ds_type :: ds_type
  ds_config :: ds_config

record resolver_params =
  rp_apiId :: string
  rp_kind :: string
  rp_typeName :: string
  rp_fieldName :: string
  rp_dataSourceName :: string
  rp_requestMappingTemplate :: string
  rp_responseMappingTemplate :: string

record remote_resolver =
  fieldName :: string
  dataSourceName :: string

section \<open>Remote calls and asynchronous functions\<close>

text \<open>
  Every operation of the remote service the engine invokes is a request. The two
  identifier look-ups and the timer are collaborators:

  Modelled from the spec: \<^verbatim>\<open>getRoleArn\<close> and \<^verbatim>\<open>getLambdaArn\<close> are required from
  \<^verbatim>\<open>./getRoleArn\<close> and \<^verbatim>\<open>./getLambdaArn\<close>, which are not among the sources; the
  specification treats them as opaque functions that return an identifier, so each is
  one look-up (\<open>GetRoleArn\<close>, \<open>GetLambdaArn\<close>) that yields an ARN or fails.

  Modelled from the spec: \<^verbatim>\<open>sleep\<close> is required from \<^verbatim>\<open>./utils\<close>, which is not among
  the sources; it is the "fixed retry pause", a timer (\<open>Timeout\<close>) that fires later.
\<close>

datatype aws_request =
    ListResolvers string string
  | ListDataSources string
  | GetRoleArn string
  | GetLambdaArn string
  | UpdateDataSource data_source_params
  | CreateDataSource data_source_params
  | UpdateResolver resolver_params
  | CreateResolver resolver_params
  | DeleteResolver string string string
  | DeleteDataSource string string
  | Timeout nat

datatype aws_response =
    Failure string string
  | ResolversList "remote_resolver list"
  | DataSourcesList "string list"
  | ArnFound string
  | DataSourceRes string string
  | ResolverRes
  | Empty

text \<open>
  An \<^verbatim>\<open>async\<close> function is a resumable computation: it has returned or thrown
  (\<open>Done\<close>), or it is suspended at an \<^verbatim>\<open>await\<close> of one remote call and goes on with the
  response (\<open>Await\<close>). Each of the engine's asynchronous functions awaits its calls one
  after another, so at most one call of a task is in flight.
\<close>

datatype 'a task = Done "error + 'a" | Await aws_request "aws_response \<Rightarrow> 'a task"

definition return :: "'a \<Rightarrow> 'a task" where
  "return a = Done (Inr a)"

definition throw :: "error \<Rightarrow> 'a task" where
  "throw e = Done (Inl e)"

primrec task_bind :: "'a task \<Rightarrow> ('a \<Rightarrow> 'b task) \<Rightarrow> 'b task" where
  "task_bind (Done r) f = (case r of Inl e \<Rightarrow> Done (Inl e) | Inr a \<Rightarrow> f a)"
| "task_bind (Await q k) f = Await q (\<lambda>r. task_bind (k r) f)"

text \<open>\<^verbatim>\<open>try { t } catch (e) { h e }\<close>.\<close>

primrec task_catch :: "'a task \<Rightarrow> (error \<Rightarrow> 'a task) \<Rightarrow> 'a task" where
  "task_catch (Done r) h = (case r of Inl e \<Rightarrow> h e | Inr a \<Rightarrow> Done (Inr a))"
| "task_catch (Await q k) h = Await q (\<lambda>r. task_catch (k r) h)"

text \<open>\<^verbatim>\<open>await client.operation(params).promise()\<close>: the promise rejects with the
  service's error or resolves to its response.\<close>

definition call :: "aws_request \<Rightarrow> aws_response task" where
  "call q = Await q (\<lambda>r. case r of Failure c m \<Rightarrow> throw (AwsError c m) | _ \<Rightarrow> return r)"

definition getRoleArn :: "config \<Rightarrow> string \<Rightarrow> string task" where
  "getRoleArn config rn =
     task_bind (call (GetRoleArn rn))
       (\<lambda>res. case res of ArnFound arn \<Rightarrow> return arn
          | _ \<Rightarrow> throw (TypeError ''Cannot read properties of undefined''))"

definition getLambdaArn :: "config \<Rightarrow> string \<Rightarrow> string task" where
  "getLambdaArn config ln =
     task_bind (call (GetLambdaArn ln))
       (\<lambda>res. case res of ArnFound arn \<Rightarrow> return arn
          | _ \<Rightarrow> throw (TypeError ''Cannot read properties of undefined''))"

subsection \<open>The state fetcher\<close>

definition listResolvers :: "config \<Rightarrow> string \<Rightarrow> string \<Rightarrow> (string \<times> remote_resolver) list task" where
  "listResolvers config a tn =
     task_catch
       (task_bind (call (ListResolvers a tn))
          (\<lambda>res. case res of
               ResolversList rs \<Rightarrow>
                 return (fold (\<lambda>resolver resolvers. AList.update (fieldName resolver) resolver resolvers) rs [])
             | _ \<Rightarrow> throw (TypeError ''Cannot read properties of undefined (reading 'reduce')'')))
       (\<lambda>e. if err_code e = Some ''NotFoundException'' then return [] else throw e)"

definition getExistingDataSourcesNames :: "config \<Rightarrow> string \<Rightarrow> string list task" where
  "getExistingDataSourcesNames config a =
     task_bind (call (ListDataSources a))
       (\<lambda>res. case res of
            DataSourcesList ns \<Rightarrow> return ns
          | _ \<Rightarrow> throw (TypeError ''Cannot read properties of undefined (reading 'map')''))"

subsection \<open>The resolver provisioner's two calls\<close>

definition updateAppSyncResolver :: "config \<Rightarrow> resolver_params \<Rightarrow> aws_response task" where
  "updateAppSyncResolver config rp =
     task_catch (call (UpdateResolver rp))
       (\<lambda>e. if err_code e = Some ''NotFoundException'' \<and> str_includes (err_message e) ''Type''
               \<and> str_includes (err_message e) ''not found''
             then throw e else throw e)"

definition createAppSyncResolver :: "config \<Rightarrow> resolver_params \<Rightarrow> aws_response task" where
  "createAppSyncResolver config rp =
     task_catch (call (CreateResolver rp))
       (\<lambda>e. if err_code e = Some ''NotFoundException'' \<and> str_includes (err_message e) ''Type''
               \<and> str_includes (err_message e) ''not found''
             then throw e else throw e)"

subsection \<open>Data sources\<close>

definition alphanumeric :: "char \<Rightarrow> bool" where
  "alphanumeric c =
     (c \<in> set (''abcdefghijklmnopqrstuvwxyz'' @ ''ABCDEFGHIJKLMNOPQRSTUVWXYZ'' @ ''0123456789''))"

text \<open>\<^verbatim>\<open>name.replace(/[^a-z0-9]/gi, '')\<close>; on \<^verbatim>\<open>undefined\<close> the property access throws.\<close>

definition getDataSourceName :: "string option \<Rightarrow> error + string" where
  "getDataSourceName nm =
     (case nm of
        None \<Rightarrow> Inl (TypeError ''Cannot read properties of undefined (reading 'replace')'')
      | Some s \<Rightarrow> Inr (filter alphanumeric s))"

definition lift :: "error + 'a \<Rightarrow> 'a task" where
  "lift r = Done r"

text \<open>The three \<^verbatim>\<open>if\<close>s that fill \<^verbatim>\<open>dynamodbConfig.deltaSyncConfig\<close>: the object is created
  by the first of them that fires.\<close>

definition deltaSyncConfig :: "'a params_scheme \<Rightarrow> delta_sync_config option" where
  "deltaSyncConfig p =
     (let none = \<lparr>baseTableTTL = None, deltaSyncTableName = None, deltaSyncTableTTL = None\<rparr>;
          d1 = (if truthy_num (ttl p)
                then Some (none\<lparr>baseTableTTL := ttl p\<rparr>) else None);
          d2 = (if truthy (syncTable p)
                then Some ((case d1 of None \<Rightarrow> none | Some d \<Rightarrow> d)\<lparr>deltaSyncTableName := syncTable p\<rparr>)
                else d1);
          d3 = (if truthy_num (syncTableTtl p)
                then Some ((case d2 of None \<Rightarrow> none | Some d \<Rightarrow> d)\<lparr>deltaSyncTableTTL := syncTableTtl p\<rparr>)
                else d2)
      in d3)"

text \<open>Lines 96 to 166: the \<^verbatim>\<open>if\<close> chain that classifies the specification and builds the
  payload, after the role look-up has returned \<open>roleArn\<close>.\<close>

definition dataSourceParams :: "config \<Rightarrow> 'a params_scheme \<Rightarrow> string \<Rightarrow> data_source_params task" where
  \<open>dataSourceParams config p roleArn =
     (if truthy (lambda p) then
        task_bind (lift (getDataSourceName (lambda p))) (\<lambda>n.
        task_bind (getLambdaArn config (the (lambda p))) (\<lambda>arn.
          return \<lparr>ds_apiId = apiId p, ds_serviceRoleArn = roleArn, ds_name = Some n,
                  ds_type = AWS_LAMBDA, ds_config = LambdaConfig arn\<rparr>))
      else if truthy (table p) then
        task_bind (lift (getDataSourceName (table p))) (\<lambda>n.
          return \<lparr>ds_apiId = apiId p, ds_serviceRoleArn = roleArn, ds_name = Some n,
                  ds_type = AMAZON_DYNAMODB,
                  ds_config = DynamodbConfig (js_or (tableRegion p) (region config)) (the (table p))
                                (deltaSyncConfig p)\<rparr>)
      else if authorizationConfig p \<noteq> None then
        return \<lparr>ds_apiId = apiId p, ds_serviceRoleArn = roleArn, ds_name = name p,
                ds_type = HTTP,
                ds_config = HttpConfig (endpoint p) (authorization p) (signingRegion p)
                              (signingServiceName p)\<rparr>
      else if truthy (endpoint p) then
        return \<lparr>ds_apiId = apiId p, ds_serviceRoleArn = roleArn, ds_name = name p,
                ds_type = AMAZON_ELASTICSEARCH,
                ds_config = ElasticsearchConfig (js_or (endpointRegion p) (region config)) (endpoint p)\<rparr>
      else if truthy (relationalDatabaseSourceType p) then
        task_bind (if truthy (name p) then return (the (name p))
                   else lift (getDataSourceName (database p))) (\<lambda>n.
          return \<lparr>ds_apiId = apiId p, ds_serviceRoleArn = roleArn, ds_name = Some n,
                  ds_type = RELATIONAL_DATABASE,
                  ds_config = RelationalDatabaseConfig (the (relationalDatabaseSourceType p))
                                (js_or (endpointRegion p) (region config)) (awsSecretStoreArn p)
                                (database p) (dbClusterIdentifier p) (schema p)\<rparr>)
      else throw (Error (''Please specify a data source for resolver "'' @ type p @ ''.'' @ field p @ ''"'')))\<close>

definition dataSourceResult :: "aws_response \<Rightarrow> (string \<times> string) task" where
  "dataSourceResult res =
     (case res of
        DataSourceRes arn n \<Rightarrow> return (arn, n)
      | _ \<Rightarrow> throw (TypeError ''Cannot destructure property 'dataSourceArn' of undefined''))"

text \<open>Lines 168 to 197: update, on \<^verbatim>\<open>NotFoundException\<close> create, on the create's
  \<^verbatim>\<open>BadRequestException\<close> "Data source with name" update once more.\<close>

definition provisionDataSource :: "data_source_params \<Rightarrow> (string \<times> string) task" where
  "provisionDataSource dsp =
     task_catch (task_bind (call (UpdateDataSource dsp)) dataSourceResult)
       (\<lambda>e. if err_code e = Some ''NotFoundException'' then
               task_catch (task_bind (call (CreateDataSource dsp)) dataSourceResult)
                 (\<lambda>createError.
                    if err_code createError = Some ''BadRequestException''
                       \<and> str_includes (err_message createError) ''Data source with name''
                    then task_bind (call (UpdateDataSource dsp)) dataSourceResult
                    else throw createError)
             else throw e)"

definition deployAppSyncDataSource :: "config \<Rightarrow> 'a params_scheme \<Rightarrow> (string \<times> string) task" where
  "deployAppSyncDataSource config p =
     task_bind (getRoleArn config (roleName p)) (\<lambda>roleArn.
     task_bind (dataSourceParams config p roleArn) provisionDataSource)"


text \<open>Lines 200 to 209 define \<^verbatim>\<open>deployAppSyncDataSourceCached\<close>, the memoised variant of
  \<^verbatim>\<open>deployAppSyncDataSource\<close>; its key is the SHA-256 of the JSON text of
  \<^verbatim>\<open>omit(['type', 'field', 'request', 'response'], params)\<close>. The hash is injective for
  all practical purposes, so the key is that record itself, for specifications whose
  properties are written in the same order (the JSON text, and with it the real key, also
  depends on that order, which a record does not keep). No line of the file calls the
  memoised variant.\<close>

definition cacheKey :: "params \<Rightarrow> params" where
  "cacheKey p = p\<lparr>type := [], field := [], request := None, response := None\<rparr>"

subsection \<open>The resolver provisioner\<close>

definition resolverParams :: "'a params_scheme \<Rightarrow> string \<Rightarrow> resolver_params" where
  \<open>resolverParams p dsn =
     \<lparr>rp_apiId = apiId p, rp_kind = ''UNIT'', rp_typeName = type p, rp_fieldName = field p,
      rp_dataSourceName = dsn,
      rp_requestMappingTemplate =
        (if truthy (request p) then the (request p)
         else ''{ "version": "2017-02-28", "operation": "Invoke", "payload": $util.toJson($context)  }''),
      rp_responseMappingTemplate =
        (if truthy (response p) then the (response p) else ''$util.toJson($context.result)'')\<rparr>\<close>

definition deployAppSyncResolver :: "config \<Rightarrow> 'a params_scheme \<Rightarrow> aws_response task" where
  "deployAppSyncResolver config p =
     task_bind (deployAppSyncDataSource config p) (\<lambda>(dataSourceArn, dsn).
       task_catch (updateAppSyncResolver config (resolverParams p dsn))
         (\<lambda>e. if err_code e = Some ''NotFoundException''
                  \<and> str_includes (err_message e) ''No resolver found''
               then createAppSyncResolver config (resolverParams p dsn)
               else throw e))"

section \<open>Promises and the event loop\<close>

text \<open>
  Calling an \<^verbatim>\<open>async\<close> function runs it up to its first \<^verbatim>\<open>await\<close> and yields a promise;
  the promise lives on whether or not anybody awaits it. The run-time state is therefore
  the list of all promises created so far (a promise is its index), each with the state
  of its task, and the log of what happened: a call being issued, a call settling with a
  response. Which of the calls in flight settles next is not up to the program: a
  schedule, one choice per settlement, decides it, and the remote service answers a call
  as a function of everything that happened before. Both are arbitrary in the theorems.
\<close>

datatype val =
    VResolvers "(string \<times> remote_resolver) list"
  | VNames "string list"
  | VResponse aws_response
  | VUndefined

datatype event = Issue nat aws_request | Settle nat aws_request aws_response

record runtime =
  trace :: "event list"
  heap :: "val task list"

type_synonym env = "event list \<Rightarrow> aws_request \<Rightarrow> aws_response"

fun issued :: "nat \<Rightarrow> 'a task \<Rightarrow> event list" where
  "issued p (Done r) = []"
| "issued p (Await q k) = [Issue p q]"

definition start :: "val task \<Rightarrow> runtime \<Rightarrow> runtime" where
  "start t st = st\<lparr>trace := trace st @ issued (length (heap st)) t, heap := heap st @ [t]\<rparr>"

text \<open>\<^verbatim>\<open>promises.push(f(...))\<close>: the call starts the task, the array gets the promise.\<close>

definition push :: "val task \<Rightarrow> nat list \<times> runtime \<Rightarrow> nat list \<times> runtime" where
  "push t = (\<lambda>(promises, st). (promises @ [length (heap st)], start t st))"

fun in_flight :: "'a task \<Rightarrow> bool" where
  "in_flight (Done r) = False"
| "in_flight (Await q k) = True"

definition settle :: "env \<Rightarrow> nat \<Rightarrow> runtime \<Rightarrow> runtime" where
  "settle env p st =
     (case heap st ! p of
        Done r \<Rightarrow> st
      | Await q k \<Rightarrow>
          st\<lparr>trace := trace st @ Settle p q (env (trace st) q) # issued p (k (env (trace st) q)),
             heap := (heap st)[p := k (env (trace st) q)]\<rparr>)"

text \<open>One turn of the event loop: the call in flight that the schedule picks settles, and
  its task runs on to its next \<^verbatim>\<open>await\<close> or to its end.\<close>

definition tick :: "env \<Rightarrow> nat \<Rightarrow> runtime \<Rightarrow> runtime" where
  "tick env c st =
     (case filter (\<lambda>p. in_flight (heap st ! p)) [0..<length (heap st)] of
        [] \<Rightarrow> st
      | p # ps \<Rightarrow> settle env ((p # ps) ! (c mod length (p # ps))) st)"

datatype 'a awaited = Resolved 'a | Rejected error | Starved

text \<open>\<^verbatim>\<open>Promise.all\<close> rejects with the first rejection and otherwise resolves, once all
  have, to the values in the order of the array.\<close>

fun rejection :: "val task list \<Rightarrow> nat list \<Rightarrow> error option" where
  "rejection h [] = None"
| "rejection h (p # ps) = (case h ! p of Done (Inl e) \<Rightarrow> Some e | _ \<Rightarrow> rejection h ps)"

fun fulfilment :: "val task list \<Rightarrow> nat list \<Rightarrow> val list option" where
  "fulfilment h [] = Some []"
| "fulfilment h (p # ps) =
     (case h ! p of
        Done (Inr v) \<Rightarrow> (case fulfilment h ps of Some vs \<Rightarrow> Some (v # vs) | None \<Rightarrow> None)
      | _ \<Rightarrow> None)"

text \<open>\<^verbatim>\<open>await Promise.all(promises)\<close>. The caller resumes as soon as the promise of
  \<^verbatim>\<open>Promise.all\<close> settles; until then the event loop turns, and any call in flight may
  settle, also one of a promise nobody awaits any more. \<open>Starved\<close>: the schedule ended
  first.\<close>

fun promise_all :: "env \<Rightarrow> nat list \<Rightarrow> runtime \<Rightarrow> nat list \<Rightarrow> val list awaited \<times> runtime \<times> nat list" where
  "promise_all env promises st [] =
     (case rejection (heap st) promises of
        Some e \<Rightarrow> (Rejected e, st, [])
      | None \<Rightarrow> (case fulfilment (heap st) promises of
                   Some vs \<Rightarrow> (Resolved vs, st, [])
                 | None \<Rightarrow> (Starved, st, [])))"
| "promise_all env promises st (c # sched) =
     (case rejection (heap st) promises of
        Some e \<Rightarrow> (Rejected e, st, c # sched)
      | None \<Rightarrow> (case fulfilment (heap st) promises of
                   Some vs \<Rightarrow> (Resolved vs, st, c # sched)
                 | None \<Rightarrow> promise_all env promises (tick env c st) sched))"

section \<open>The reconciliation run\<close>

text \<open>A loop whose body may throw: the state reached so far stays (a promise that was
  started is not taken back by an exception).\<close>

fun for_in :: "('a \<Rightarrow> 's \<Rightarrow> error option \<times> 's) \<Rightarrow> 'a list \<Rightarrow> 's \<Rightarrow> error option \<times> 's" where
  "for_in body [] s = (None, s)"
| "for_in body (x # xs) s =
     (case body x s of (Some e, s') \<Rightarrow> (Some e, s') | (None, s') \<Rightarrow> for_in body xs s')"

text \<open>\<^verbatim>\<open>{ ...spec, apiId, roleName, type, field }\<close>; spreading \<^verbatim>\<open>null\<close> adds nothing.\<close>

definition no_spec :: resolver_spec where
  "no_spec = \<lparr>name = None, lambda = None, table = None, tableRegion = None, ttl = None,
     syncTable = None, syncTableTtl = None, authorizationConfig = None, endpoint = None,
     authorization = None, signingRegion = None, signingServiceName = None,
     endpointRegion = None, relationalDatabaseSourceType = None, awsSecretStoreArn = None,
     database = None, dbClusterIdentifier = None, schema = None, request = None,
     response = None\<rparr>"

definition spread :: "resolver_spec js \<Rightarrow> string \<Rightarrow> string \<Rightarrow> string \<Rightarrow> string \<Rightarrow> params" where
  "spread v a r ty f =
     resolver_spec.extend (case v of Object s \<Rightarrow> s | _ \<Rightarrow> no_spec)
       \<lparr>apiId = a, roleName = r, type = ty, field = f\<rparr>"

text \<open>Lines 283 to 302.\<close>

definition upsertField ::
  "config \<Rightarrow> string \<Rightarrow> string \<Rightarrow> string \<Rightarrow> string \<times> resolver_spec js \<Rightarrow> nat list \<times> runtime
     \<Rightarrow> error option \<times> nat list \<times> runtime" where
  \<open>upsertField config a r ty = (\<lambda>(f, v) s.
     if typeof v \<noteq> ''object''
     then (Some (Error (''"resolvers.'' @ ty @ ''.'' @ f @ ''" must be an object.'')), s)
     else (None, push (map_task VResponse (deployAppSyncResolver config (spread v a r ty f))) s))\<close>

definition upsertType ::
  "config \<Rightarrow> string \<Rightarrow> string \<Rightarrow> string \<times> (string \<times> resolver_spec js) list js \<Rightarrow> nat list \<times> runtime
     \<Rightarrow> error option \<times> nat list \<times> runtime" where
  \<open>upsertType config a r = (\<lambda>(ty, v) s.
     if typeof v \<noteq> ''object''
     then (Some (Error (''"resolvers.'' @ ty @ ''" must be an object.'')), s)
     else for_in (upsertField config a r ty) (entries v) s)\<close>

text \<open>The properties every object inherits from \<^verbatim>\<open>Object.prototype\<close>. A read of one of
  them on an object that has no property of its own by that name yields the inherited
  value: a function (for \<^verbatim>\<open>__proto__\<close> the prototype itself), which is truthy. They are
  not enumerable, so \<^verbatim>\<open>for ... in\<close> does not list them.\<close>

definition object_prototype :: "string list" where
  "object_prototype =
     [''constructor'', ''hasOwnProperty'', ''isPrototypeOf'', ''propertyIsEnumerable'',
      ''toLocaleString'', ''toString'', ''valueOf'', ''__defineGetter__'', ''__defineSetter__'',
      ''__lookupGetter__'', ''__lookupSetter__'', ''__proto__'']"

text \<open>\<^verbatim>\<open>v[key]\<close>: a \<^verbatim>\<open>TypeError\<close> on \<^verbatim>\<open>null\<close> and \<^verbatim>\<open>undefined\<close>; on an object the
  property of its own, else the inherited one, else \<^verbatim>\<open>undefined\<close>. (The read on a
  boolean, number, string or function is never reached: line 306 reads \<^verbatim>\<open>resolvers\<close>,
  which is \<^verbatim>\<open>null\<close> or an object after line 270, at the keys \<^verbatim>\<open>Query\<close> and
  \<^verbatim>\<open>Mutation\<close>, and what it finds there, which has passed line 284 when present.)\<close>

fun js_get :: "(string \<times> 'a js) list js \<Rightarrow> string \<Rightarrow> error + 'a js" where
  "js_get Undefined key =
     Inl (TypeError (''Cannot read properties of undefined (reading '' @ [CHR 0x27] @ key @ [CHR 0x27] @ '')''))"
| "js_get Null key =
     Inl (TypeError (''Cannot read properties of null (reading '' @ [CHR 0x27] @ key @ [CHR 0x27] @ '')''))"
| "js_get (Object kvs) key =
     Inr (case map_of kvs key of
            Some v \<Rightarrow> v
          | None \<Rightarrow> if key \<in> set object_prototype then Function else Undefined)"
| "js_get v key = Inr Undefined"

text \<open>Line 306: \<^verbatim>\<open>!resolvers[type] || !resolvers[type][field]\<close>.\<close>

definition notDesired :: "desired \<Rightarrow> string \<Rightarrow> string \<Rightarrow> error + bool" where
  "notDesired resolvers ty f =
     (case js_get resolvers ty of
        Inl e \<Rightarrow> Inl e
      | Inr tv \<Rightarrow>
          if \<not> truthy_js tv then Inr True
          else (case js_get tv f of Inl e \<Rightarrow> Inl e | Inr fv \<Rightarrow> Inr (\<not> truthy_js fv)))"

text \<open>Lines 304 to 316.\<close>

definition deleteField ::
  "desired \<Rightarrow> string \<Rightarrow> string \<Rightarrow> string \<times> remote_resolver \<Rightarrow> nat list \<times> runtime
     \<Rightarrow> error option \<times> nat list \<times> runtime" where
  "deleteField resolvers a ty = (\<lambda>(f, existing) s.
     case notDesired resolvers ty f of
       Inl e \<Rightarrow> (Some e, s)
     | Inr True \<Rightarrow> (None, push (map_task VResponse (call (DeleteResolver a f ty))) s)
     | Inr False \<Rightarrow> (None, s))"

definition deleteType ::
  "desired \<Rightarrow> string \<Rightarrow> string \<times> (string \<times> remote_resolver) list \<Rightarrow> nat list \<times> runtime
     \<Rightarrow> error option \<times> nat list \<times> runtime" where
  "deleteType resolvers a = (\<lambda>(ty, fields) s. for_in (deleteField resolvers a ty) fields s)"

text \<open>Lines 244 to 256.\<close>

definition dataSourceNameOf :: "string \<times> resolver_spec js \<Rightarrow> string list \<Rightarrow> error option \<times> string list" where
  \<open>dataSourceNameOf = (\<lambda>(f, v) dataSourcesNames.
     case v of
       Null \<Rightarrow> (Some (TypeError ''Cannot destructure property 'name' of null''), dataSourcesNames)
     | Undefined \<Rightarrow> (Some (TypeError ''Cannot destructure property 'name' of undefined''), dataSourcesNames)
     | Object s \<Rightarrow>
         (case getDataSourceName (js_or (js_or (js_or (name s) (lambda s)) (table s)) (database s)) of
            Inl e \<Rightarrow> (Some e, dataSourcesNames)
          | Inr n \<Rightarrow> (None, dataSourcesNames @ [n]))
     | _ \<Rightarrow> (case getDataSourceName None of
              Inl e \<Rightarrow> (Some e, dataSourcesNames)
            | Inr n \<Rightarrow> (None, dataSourcesNames @ [n])))\<close>

definition dataSourceNamesOfType ::
  "string \<times> (string \<times> resolver_spec js) list js \<Rightarrow> string list \<Rightarrow> error option \<times> string list" where
  "dataSourceNamesOfType = (\<lambda>(ty, v) dataSourcesNames. for_in dataSourceNameOf (entries v) dataSourcesNames)"

definition getDataSourcesNames :: "desired \<Rightarrow> error option \<times> string list" where
  "getDataSourcesNames resolvers = for_in dataSourceNamesOfType (entries resolvers) []"

text \<open>Lines 322 to 332.\<close>

definition removeOutdated :: "string \<Rightarrow> string list \<Rightarrow> string \<Rightarrow> nat list \<times> runtime \<Rightarrow> nat list \<times> runtime" where
  "removeOutdated a dataSourcesNames existingDataSourceName s =
     (if existingDataSourceName \<notin> set dataSourcesNames
      then push (map_task VResponse (call (DeleteDataSource a existingDataSourceName))) s
      else s)"

datatype outcome = Returned | Threw error | Pending

text \<open>Lines 281 to 334: what the run does once the snapshot is there.\<close>

definition reconcile ::
  "env \<Rightarrow> config \<Rightarrow> string \<Rightarrow> string \<Rightarrow> desired \<Rightarrow> (string \<times> (string \<times> remote_resolver) list) list
     \<Rightarrow> string list \<Rightarrow> runtime \<Rightarrow> nat list \<Rightarrow> outcome \<times> runtime \<times> nat list" where
  "reconcile env config a r resolvers existingResolvers existingDataSourcesNames st sched =
     (case for_in (upsertType config a r) (entries resolvers) ([], st) of
        (Some e, promises, st1) \<Rightarrow> (Threw e, st1, sched)
      | (None, promises, st1) \<Rightarrow>
     (case for_in (deleteType resolvers a) existingResolvers (promises, st1) of
        (Some e, promises, st2) \<Rightarrow> (Threw e, st2, sched)
      | (None, promises, st2) \<Rightarrow>
     (case promise_all env promises st2 sched of
        (Rejected e, st3, sched3) \<Rightarrow> (Threw e, st3, sched3)
      | (Starved, st3, sched3) \<Rightarrow> (Pending, st3, sched3)
      | (Resolved vs, st3, sched3) \<Rightarrow>
     (case getDataSourcesNames resolvers of
        (Some e, dataSourcesNames) \<Rightarrow> (Threw e, st3, sched3)
      | (None, dataSourcesNames) \<Rightarrow>
     (case fold (removeOutdated a dataSourcesNames) existingDataSourcesNames ([], st3) of
        (removeOutdatedDataSources, st4) \<Rightarrow>
     (case promise_all env removeOutdatedDataSources st4 sched3 of
        (Rejected e, st5, sched5) \<Rightarrow> (Threw e, st5, sched5)
      | (Starved, st5, sched5) \<Rightarrow> (Pending, st5, sched5)
      | (Resolved vs', st5, sched5) \<Rightarrow> (Returned, st5, sched5)))))))"

text \<open>Lines 28 to 41 and 274 to 279. \<^verbatim>\<open>getExistingResolvers\<close> awaits the
  \<^verbatim>\<open>Promise.all\<close> of its two listings and is itself awaited, together with the listing
  of the data sources, in a \<^verbatim>\<open>Promise.all\<close>: the three calls are issued at once, the
  first rejection of any of them rejects the whole, and all three must resolve for it to
  resolve, which is one \<^verbatim>\<open>Promise.all\<close> of the three.\<close>

definition getExistingResolvers :: "config \<Rightarrow> string \<Rightarrow> val task list" where
  "getExistingResolvers config a =
     [map_task VResolvers (listResolvers config a ''Query''),
      map_task VResolvers (listResolvers config a ''Mutation'')]"

definition snapshot :: "env \<Rightarrow> config \<Rightarrow> string \<Rightarrow> runtime \<Rightarrow> nat list \<Rightarrow> val list awaited \<times> runtime \<times> nat list" where
  "snapshot env config a st sched =
     (case fold push (getExistingResolvers config a @ [map_task VNames (getExistingDataSourcesNames config a)]) ([], st) of
        (promises, st1) \<Rightarrow> promise_all env promises st1 sched)"

text \<open>Lines 259 to 334: the body of the \<^verbatim>\<open>try\<close>, one run.\<close>

definition attempt ::
  "env \<Rightarrow> config \<Rightarrow> string option \<Rightarrow> string option \<Rightarrow> desired \<Rightarrow> runtime \<Rightarrow> nat list
     \<Rightarrow> outcome \<times> runtime \<times> nat list" where
  \<open>attempt env config apiId' roleName' resolvers st sched =
     (if \<not> truthy apiId' then (Threw (Error ''Missing "apiId" param.''), st, sched)
      else if \<not> truthy roleName' then (Threw (Error ''Missing "roleName" param.''), st, sched)
      else if typeof resolvers \<noteq> ''object''
      then (Threw (Error ''"resolvers" param is missing or is not an object.''), st, sched)
      else
        (case snapshot env config (the apiId') st sched of
           (Rejected e, st1, sched1) \<Rightarrow> (Threw e, st1, sched1)
         | (Starved, st1, sched1) \<Rightarrow> (Pending, st1, sched1)
         | (Resolved [VResolvers q, VResolvers m, VNames existingDataSourcesNames], st1, sched1) \<Rightarrow>
             reconcile env config (the apiId') (the roleName') resolvers
               [(''Query'', q), (''Mutation'', m)] existingDataSourcesNames st1 sched1
         | (Resolved vs, st1, sched1) \<Rightarrow> (Threw (TypeError ''unreachable''), st1, sched1)))\<close>




section \<open>Observing a run\<close>

text \<open>The promise an event belongs to, its request, and whether it is the call being
  issued (rather than settling).\<close>

fun pid :: "event \<Rightarrow> nat" where
  "pid (Issue p q) = p"
| "pid (Settle p q r) = p"

fun req :: "event \<Rightarrow> aws_request" where
  "req (Issue p q) = q"
| "req (Settle p q r) = q"

fun is_issue :: "event \<Rightarrow> bool" where
  "is_issue (Issue p q) = True"
| "is_issue (Settle p q r) = False"

text \<open>A promise has a call in flight after a log when it has issued more calls than have
  settled.\<close>

definition issues :: "event list \<Rightarrow> nat \<Rightarrow> nat" where
  "issues tr p = length (filter (\<lambda>e. pid e = p \<and> is_issue e) tr)"

definition settles :: "event list \<Rightarrow> nat \<Rightarrow> nat" where
  "settles tr p = length (filter (\<lambda>e. pid e = p \<and> \<not> is_issue e) tr)"

definition outstanding :: "event list \<Rightarrow> nat \<Rightarrow> bool" where
  "outstanding tr p = (settles tr p < issues tr p)"

text \<open>The log and the promises agree: the log speaks of promises that exist only, and a
  promise has one call more issued than settled exactly when its task is suspended at a
  call. The empty run-time state is consistent, and every step keeps it so.\<close>

definition consistent :: "runtime \<Rightarrow> bool" where
  "consistent st \<longleftrightarrow>
     (\<forall>e \<in> set (trace st). pid e < length (heap st)) \<and>
     (\<forall>p < length (heap st).
        issues (trace st) p = settles (trace st) p + (if in_flight (heap st ! p) then 1 else 0))"

text \<open>Classes of requests.\<close>

fun listing :: "aws_request \<Rightarrow> bool" where
  "listing (ListResolvers a tn) = True"
| "listing (ListDataSources a) = True"
| "listing q = False"

fun upsert_call :: "aws_request \<Rightarrow> bool" where
  "upsert_call (GetRoleArn r) = True"
| "upsert_call (GetLambdaArn l) = True"
| "upsert_call (UpdateDataSource d) = True"
| "upsert_call (CreateDataSource d) = True"
| "upsert_call (UpdateResolver x) = True"
| "upsert_call (CreateResolver x) = True"
| "upsert_call q = False"

fun resolver_delete :: "aws_request \<Rightarrow> bool" where
  "resolver_delete (DeleteResolver a f ty) = True"
| "resolver_delete q = False"

fun data_source_delete :: "aws_request \<Rightarrow> bool" where
  "data_source_delete (DeleteDataSource a n) = True"
| "data_source_delete q = False"

fun mutating :: "aws_request \<Rightarrow> bool" where
  "mutating (UpdateDataSource d) = True"
| "mutating (CreateDataSource d) = True"
| "mutating (UpdateResolver x) = True"
| "mutating (CreateResolver x) = True"
| "mutating (DeleteResolver a f ty) = True"
| "mutating (DeleteDataSource a n) = True"
| "mutating q = False"

text \<open>The errors of the validation at lines 262 to 291 (\<open>validation_error\<close>), and the
  errors a task can reject with (\<open>task_error\<close>): an error of the remote service, a
  \<^verbatim>\<open>TypeError\<close>, or "Please specify a data source ...".\<close>

fun validation_error :: "error \<Rightarrow> bool" where
  \<open>validation_error (Error m) =
     (m = ''Missing "apiId" param.'' \<or> m = ''Missing "roleName" param.''
      \<or> m = ''"resolvers" param is missing or is not an object.''
      \<or> (take 11 m = ''"resolvers.'' \<and> drop (length m - 20) m = ''" must be an object.''))\<close>
| "validation_error e = False"

fun task_error :: "error \<Rightarrow> bool" where
  "task_error (Error m) = (take 15 m = ''Please specify '')"
| "task_error e = True"

text \<open>A task is confined to \<open>P\<close> and \<open>Q\<close> when, whatever the responses, it issues only
  requests in \<open>P\<close> and rejects only with errors in \<open>Q\<close>.\<close>

primrec confined :: "(aws_request \<Rightarrow> bool) \<Rightarrow> (error \<Rightarrow> bool) \<Rightarrow> 'a task \<Rightarrow> bool" where
  "confined P Q (Done x) = (case x of Inl e \<Rightarrow> Q e | Inr v \<Rightarrow> True)"
| "confined P Q (Await q k) = (P q \<and> (\<forall>r. confined P Q (k r)))"

text \<open>A phase of a run that began with promise \<open>h0\<close>: since the log was \<open>T0\<close>, the
  promises from \<open>h0\<close> up to \<open>h1\<close> have resolved and are silent, and those from \<open>h1\<close> on
  are confined to \<open>P\<close> and \<open>Q\<close>. Promises before \<open>h0\<close> belong to earlier runs and may do
  anything.\<close>

definition phase ::
  "nat \<Rightarrow> nat \<Rightarrow> (aws_request \<Rightarrow> bool) \<Rightarrow> (error \<Rightarrow> bool) \<Rightarrow> event list \<Rightarrow> runtime \<Rightarrow> bool" where
  "phase h0 h1 P Q T0 st \<longleftrightarrow>
     (\<forall>p < length (heap st). h0 \<le> p \<longrightarrow>
        (if p < h1 then \<exists>v. heap st ! p = Done (Inr v) else confined P Q (heap st ! p))) \<and>
     (\<exists>E. trace st = T0 @ E \<and>
        (\<forall>e \<in> set E. pid e < length (heap st) \<and> (h0 \<le> pid e \<longrightarrow> h1 \<le> pid e \<and> P (req e))))"

definition spawned ::
  "nat \<Rightarrow> nat \<Rightarrow> (aws_request \<Rightarrow> bool) \<Rightarrow> event list \<Rightarrow> nat list \<times> runtime \<Rightarrow> bool" where
  "spawned h0 h1 P T0 = (\<lambda>(ps, st).
     phase h0 h1 P task_error T0 st \<and> consistent st \<and> h0 \<le> h1 \<and> h1 \<le> length (heap st)
     \<and> ps = [h1..<length (heap st)])"

definition resolved_from :: "nat \<Rightarrow> runtime \<Rightarrow> bool" where
  "resolved_from h0 st \<longleftrightarrow> (\<forall>p < length (heap st). h0 \<le> p \<longrightarrow> (\<exists>v. heap st ! p = Done (Inr v)))"

text \<open>A log without a mutating call; a state in which, since the log was \<open>T0\<close>, the
  promises from \<open>h0\<close> on have issued no mutating call and never will (\<open>quiet\<close>); a log
  that extends \<open>T0\<close> without a mutating call of a promise from \<open>h0\<close> on.\<close>

definition quiet_trace :: "event list \<Rightarrow> bool" where
  "quiet_trace tr \<longleftrightarrow> (\<forall>ev \<in> set tr. \<not> mutating (req ev))"



text \<open>The input passes the whole validation: the three checks at the top, and the checks
  in the loop of lines 283 to 302, which do not depend on the state.\<close>

definition shape_ok :: "config \<Rightarrow> string option \<Rightarrow> string option \<Rightarrow> desired \<Rightarrow> bool" where
  "shape_ok config apiId' roleName' resolvers \<longleftrightarrow>
     truthy apiId' \<and> truthy roleName' \<and> typeof resolvers = ''object''
     \<and> (\<forall>s. fst (for_in (upsertType config (the apiId') (the roleName')) (entries resolvers) s) = None)"



definition extends_quietly :: "event list \<Rightarrow> nat list \<times> runtime \<Rightarrow> bool" where
  "extends_quietly T0 = (\<lambda>(ps, st). \<exists>E. trace st = T0 @ E \<and> quiet_trace E)"

text \<open>The calls that delete the data sources \<open>names\<close>, issued one after another by the
  promises from \<open>h\<close> on.\<close>

definition deletes_from :: "string \<Rightarrow> nat \<Rightarrow> string list \<Rightarrow> event list" where
  "deletes_from a h names = map (\<lambda>(p, n). Issue p (DeleteDataSource a n)) (enumerate h names)"

text \<open>One task against a scripted service: the requests it issues when its calls are
  answered by the given responses, in order, and the state it is left in.\<close>

fun feed :: "'a task \<Rightarrow> aws_response list \<Rightarrow> aws_request list \<times> 'a task" where
  "feed t [] = (case t of Done x \<Rightarrow> [] | Await q k \<Rightarrow> [q], t)"
| "feed t (r # rs) =
     (case t of
        Done x \<Rightarrow> ([], t)
      | Await q k \<Rightarrow> (case feed (k r) rs of (qs, t') \<Rightarrow> (q # qs, t')))"

text \<open>The look-ups that precede the provisioning of a data source, and responses that let
  them succeed: the role always, the function when the specification names one.\<close>

definition lookups :: "'a params_scheme \<Rightarrow> aws_request list" where
  "lookups p = GetRoleArn (roleName p) # (if truthy (lambda p) then [GetLambdaArn (the (lambda p))] else [])"

definition found :: "'a params_scheme \<Rightarrow> string \<Rightarrow> string \<Rightarrow> aws_response list" where
  "found p ra la = ArnFound ra # (if truthy (lambda p) then [ArnFound la] else [])"

text \<open>The number of pauses of one second that a log records.\<close>

definition pauses :: "event list \<Rightarrow> nat" where
  "pauses tr = length (filter (\<lambda>ev. is_issue ev \<and> req ev = Timeout 1000) tr)"

text \<open>The condition of line 183: the create failed because the name is taken.\<close>

definition name_taken :: "string \<Rightarrow> string \<Rightarrow> bool" where
  "name_taken c m \<longleftrightarrow> c = ''BadRequestException'' \<and> str_includes m ''Data source with name''"

section \<open>Example runs\<close>

text \<open>Concrete inputs, remote services and schedules, on which the theorems below are
  instantiated. The run-time state of a fresh process is empty.\<close>

definition init :: runtime where
  "init = \<lparr>trace = [], heap = []\<rparr>"

definition cfg :: config where
  "cfg = \<lparr>region = Some ''us-east-1''\<rparr>"

definition lambda_spec :: "string \<Rightarrow> resolver_spec" where
  "lambda_spec fn = no_spec\<lparr>lambda := Some fn\<rparr>"

definition accepting :: "aws_request \<Rightarrow> aws_response" where
  "accepting q =
     (case q of
        GetRoleArn r \<Rightarrow> ArnFound ''arn:role''
      | GetLambdaArn l \<Rightarrow> ArnFound ''arn:lambda''
      | UpdateDataSource d \<Rightarrow> DataSourceRes ''arn:ds'' (case ds_name d of Some n \<Rightarrow> n | None \<Rightarrow> [])
      | CreateDataSource d \<Rightarrow> DataSourceRes ''arn:ds'' (case ds_name d of Some n \<Rightarrow> n | None \<Rightarrow> [])
      | UpdateResolver x \<Rightarrow> ResolverRes
      | CreateResolver x \<Rightarrow> ResolverRes
      | _ \<Rightarrow> Empty)"

text \<open>A service that lists one resolver, \<^verbatim>\<open>Mutation.deleteUser\<close>, and the data sources
  \<^verbatim>\<open>usersFn\<close> and \<^verbatim>\<open>old\<close>, and accepts every other call.\<close>

definition remote1 :: env where
  "remote1 tr q =
     (case q of
        ListResolvers a tn \<Rightarrow>
          (if tn = ''Mutation''
           then ResolversList [\<lparr>fieldName = ''deleteUser'', dataSourceName = ''old''\<rparr>]
           else ResolversList [])
      | ListDataSources a \<Rightarrow> DataSourcesList [''usersFn'', ''old'']
      | _ \<Rightarrow> accepting q)"

definition desired1 :: desired where
  "desired1 = Object [(''Query'', Object [(''getUser'', Object (lambda_spec ''usersFn''))])]"

definition run1 :: "outcome \<times> runtime \<times> nat list" where
  "run1 = attempt remote1 cfg (Some ''api'') (Some ''role'') desired1 init (replicate 9 0)"

text \<open>A service with no resolver and no data source that accepts every call.\<close>

definition remote0 :: env where
  "remote0 tr q =
     (case q of
        ListResolvers a tn \<Rightarrow> ResolversList []
      | ListDataSources a \<Rightarrow> DataSourcesList []
      | _ \<Rightarrow> accepting q)"

text \<open>Two resolvers on the same function, with different request templates.\<close>

definition shared_a :: resolver_spec where
  "shared_a = no_spec\<lparr>lambda := Some ''usersFn'', request := Some ''A''\<rparr>"

definition shared_b :: resolver_spec where
  "shared_b = no_spec\<lparr>lambda := Some ''usersFn'', request := Some ''B''\<rparr>"

definition desired_shared :: desired where
  "desired_shared = Object [(''Query'', Object [(''a'', Object shared_a), (''b'', Object shared_b)])]"

definition run_shared :: "outcome \<times> runtime \<times> nat list" where
  "run_shared = attempt remote0 cfg (Some ''api'') (Some ''role'') desired_shared init (replicate 11 0)"

definition shared_payload :: data_source_params where
  "shared_payload = \<lparr>ds_apiId = ''api'', ds_serviceRoleArn = ''arn:role'', ds_name = Some ''usersFn'',
     ds_type = AWS_LAMBDA, ds_config = LambdaConfig ''arn:lambda''\<rparr>"

text \<open>An HTTP data source with the explicit name \<^verbatim>\<open>my_ds\<close>, which the service already has,
  bound to the resolver \<^verbatim>\<open>Query.ping\<close>.\<close>

definition http_spec :: resolver_spec where
  "http_spec = no_spec\<lparr>name := Some ''my_ds'', authorizationConfig := Some (),
     endpoint := Some ''https://example.com'', authorization := Some ''AWS_IAM''\<rparr>"

definition http_payload :: data_source_params where
  "http_payload = \<lparr>ds_apiId = ''api'', ds_serviceRoleArn = ''arn:role'', ds_name = Some ''my_ds'',
     ds_type = HTTP,
     ds_config = HttpConfig (Some ''https://example.com'') (Some ''AWS_IAM'') None None\<rparr>"

definition remote_http :: env where
  "remote_http tr q =
     (case q of
        ListResolvers a tn \<Rightarrow>
          (if tn = ''Query''
           then ResolversList [\<lparr>fieldName = ''ping'', dataSourceName = ''my_ds''\<rparr>]
           else ResolversList [])
      | ListDataSources a \<Rightarrow> DataSourcesList [''my_ds'']
      | _ \<Rightarrow> accepting q)"

definition desired_http :: desired where
  "desired_http = Object [(''Query'', Object [(''ping'', Object http_spec)])]"

definition run_http :: "outcome \<times> runtime \<times> nat list" where
  "run_http = attempt remote_http cfg (Some ''api'') (Some ''role'') desired_http init (replicate 7 0)"



text \<open>\<^verbatim>\<open>resolvers: null\<close> against the service that lists \<^verbatim>\<open>Mutation.deleteUser\<close>.\<close>

definition run_null :: "outcome \<times> runtime \<times> nat list" where
  "run_null = attempt remote1 cfg (Some ''api'') (Some ''role'') Null init (replicate 3 0)"

text \<open>\<^verbatim>\<open>resolvers: null\<close> against a service that lists no resolver and the data sources
  \<^verbatim>\<open>usersFn\<close> and \<^verbatim>\<open>old\<close>.\<close>

definition remote_ds :: env where
  "remote_ds tr q =
     (case q of
        ListResolvers a tn \<Rightarrow> ResolversList []
      | ListDataSources a \<Rightarrow> DataSourcesList [''usersFn'', ''old'']
      | _ \<Rightarrow> accepting q)"

definition run_null_ds :: "outcome \<times> runtime \<times> nat list" where
  "run_null_ds = attempt remote_ds cfg (Some ''api'') (Some ''role'') Null init (replicate 5 0)"

text \<open>The service of the first example, but without the data source \<^verbatim>\<open>usersFn\<close> and at
  its limit of data sources: the update finds nothing and the create is refused.\<close>

definition remote_full :: env where
  "remote_full tr q =
     (case q of
        UpdateDataSource d \<Rightarrow> Failure ''NotFoundException'' ''no such data source''
      | CreateDataSource d \<Rightarrow> Failure ''LimitExceededException'' ''too many data sources''
      | _ \<Rightarrow> remote1 tr q)"

definition run_full :: "outcome \<times> runtime \<times> nat list" where
  "run_full = attempt remote_full cfg (Some ''api'') (Some ''role'') desired1 init (replicate 9 0)"

text \<open>A service whose schema stays locked until the caller has paused \<open>n\<close> times: up to
  then the listing of the data sources fails with the conflict. It has no resolver and no
  data source.\<close>

definition busy :: "nat \<Rightarrow> env" where
  "busy n tr q =
     (case q of
        ListResolvers a tn \<Rightarrow> ResolversList []
      | ListDataSources a \<Rightarrow>
          (if pauses tr < n
           then Failure ''ConcurrentModificationException'' ''Schema is currently being altered, please wait''
           else DataSourcesList [])
      | _ \<Rightarrow> accepting q)"

text \<open>A specification with both a function and a table.\<close>

definition both_spec :: params where
  "both_spec = spread (Object (no_spec\<lparr>lambda := Some ''users-fn'', table := Some ''users''\<rparr>))
     ''api'' ''role'' ''Query'' ''getUser''"

section \<open>The event loop keeps the log and the promises consistent\<close>

lemma issues_append [simp]: "issues (xs @ ys) p = issues xs p + issues ys p"
  by (simp add: issues_def)

lemma settles_append [simp]: "settles (xs @ ys) p = settles xs p + settles ys p"
  by (simp add: settles_def)

lemma issues_simps [simp]:
  "issues [] p = 0"
  "issues (Issue p' q # tr) p = (if p' = p then 1 else 0) + issues tr p"
  "issues (Settle p' q r # tr) p = issues tr p"
  by (simp_all add: issues_def)

lemma settles_simps [simp]:
  "settles [] p = 0"
  "settles (Issue p' q # tr) p = settles tr p"
  "settles (Settle p' q r # tr) p = (if p' = p then 1 else 0) + settles tr p"
  by (simp_all add: settles_def)

lemma issued_cases: "issued p t = (if in_flight t then [Issue p (case t of Await q k \<Rightarrow> q)] else [])"
  by (cases t) simp_all

lemma issues_issued [simp]: "issues (issued p' t) p = (if p' = p \<and> in_flight t then 1 else 0)"
  by (cases t) simp_all

lemma settles_issued [simp]: "settles (issued p' t) p = 0"
  by (cases t) simp_all

lemma pid_issued: "e \<in> set (issued p t) \<Longrightarrow> pid e = p"
  by (cases t) auto

lemma heap_start [simp]: "heap (start t st) = heap st @ [t]"
  by (simp add: start_def)

lemma trace_start [simp]: "trace (start t st) = trace st @ issued (length (heap st)) t"
  by (simp add: start_def)

lemma no_events: "\<forall>e \<in> set tr. pid e \<noteq> p \<Longrightarrow> issues tr p = 0 \<and> settles tr p = 0"
  by (induction tr) (auto simp: issues_def settles_def)

lemma consistent_start:
  assumes "consistent st"
  shows "consistent (start t st)"
proof -
  have "\<forall>e \<in> set (trace st). pid e \<noteq> length (heap st)"
    using assms unfolding consistent_def by auto
  then have "issues (trace st) (length (heap st)) = 0 \<and> settles (trace st) (length (heap st)) = 0"
    by (rule no_events)
  then show ?thesis
    using assms unfolding consistent_def
    by (auto simp: nth_append less_Suc_eq dest: pid_issued)
qed

lemma length_heap_settle [simp]: "length (heap (settle env p st)) = length (heap st)"
  by (simp add: settle_def split: task.splits)

lemma consistent_settle:
  assumes "consistent st" "p < length (heap st)"
  shows "consistent (settle env p st)"
proof (cases "heap st ! p")
  case (Done x)
  then show ?thesis using assms by (simp add: settle_def)
next
  case (Await q k)
  then show ?thesis using assms
    unfolding consistent_def
    by (auto simp: settle_def nth_list_update dest: pid_issued)
qed

lemma tick_cases:
  "tick env c st = st \<or> (\<exists>p < length (heap st). in_flight (heap st ! p) \<and> tick env c st = settle env p st)"
proof (cases "filter (\<lambda>p. in_flight (heap st ! p)) [0..<length (heap st)]")
  case Nil
  then show ?thesis by (simp add: tick_def)
next
  case (Cons p ps)
  let ?fl = "filter (\<lambda>p. in_flight (heap st ! p)) [0..<length (heap st)]"
  let ?p = "(p # ps) ! (c mod length (p # ps))"
  have "?p \<in> set ?fl"
    unfolding Cons by (rule nth_mem) simp
  then have "?p < length (heap st) \<and> in_flight (heap st ! ?p)"
    by simp
  moreover have "tick env c st = settle env ?p st"
    using Cons by (simp add: tick_def)
  ultimately show ?thesis by blast
qed

lemma tick_invariant:
  assumes "I st" "\<And>p. p < length (heap st) \<Longrightarrow> in_flight (heap st ! p) \<Longrightarrow> I (settle env p st)"
  shows "I (tick env c st)"
  using tick_cases [of env c st] assms by auto

lemma promise_all_invariant:
  assumes "promise_all env ps st sched = (r, st', sched')" "I st"
      and "\<And>c s. I s \<Longrightarrow> I (tick env c s)"
  shows "I st'"
  using assms(1,2)
proof (induction sched arbitrary: st)
  case Nil
  then show ?case by (auto split: option.splits)
next
  case (Cons c sched)
  then show ?case using assms(3) by (auto split: option.splits)
qed

lemma consistent_tick: "consistent st \<Longrightarrow> consistent (tick env c st)"
  by (rule tick_invariant) (auto intro: consistent_settle)

lemma consistent_promise_all:
  "promise_all env ps st sched = (r, st', sched') \<Longrightarrow> consistent st \<Longrightarrow> consistent st'"
  by (erule promise_all_invariant) (auto intro: consistent_tick)

lemma phase_start:
  assumes "phase h0 h1 P Q T0 st" "h1 \<le> length (heap st)" "confined P Q t"
  shows "phase h0 h1 P Q T0 (start t st)"
proof -
  from assms(1) obtain E where E: "trace st = T0 @ E"
    "\<forall>e \<in> set E. pid e < length (heap st) \<and> (h0 \<le> pid e \<longrightarrow> h1 \<le> pid e \<and> P (req e))"
    and H: "\<forall>p < length (heap st). h0 \<le> p \<longrightarrow>
        (if p < h1 then \<exists>v. heap st ! p = Done (Inr v) else confined P Q (heap st ! p))"
    unfolding phase_def by blast
  have "\<forall>e \<in> set (issued (length (heap st)) t). pid e = length (heap st) \<and> P (req e)"
    using assms(3) by (cases t) auto
  with E assms(2) have "\<forall>e \<in> set (E @ issued (length (heap st)) t).
      pid e < length (heap (start t st)) \<and> (h0 \<le> pid e \<longrightarrow> h1 \<le> pid e \<and> P (req e))"
    by (auto simp: less_Suc_eq)
  moreover have "trace (start t st) = T0 @ (E @ issued (length (heap st)) t)"
    using E by simp
  moreover have "\<forall>p < length (heap (start t st)). h0 \<le> p \<longrightarrow>
        (if p < h1 then \<exists>v. heap (start t st) ! p = Done (Inr v) else confined P Q (heap (start t st) ! p))"
    using H assms(2,3) by (auto simp: nth_append less_Suc_eq)
  ultimately show ?thesis unfolding phase_def by blast
qed

lemma phase_settle:
  assumes "phase h0 h1 P Q T0 st" "p < length (heap st)"
  shows "phase h0 h1 P Q T0 (settle env p st)"
proof (cases "heap st ! p")
  case (Done x)
  then show ?thesis using assms by (simp add: settle_def)
next
  case (Await q k)
  from assms(1) obtain E where E: "trace st = T0 @ E"
    "\<forall>e \<in> set E. pid e < length (heap st) \<and> (h0 \<le> pid e \<longrightarrow> h1 \<le> pid e \<and> P (req e))"
    and H: "\<forall>p < length (heap st). h0 \<le> p \<longrightarrow>
        (if p < h1 then \<exists>v. heap st ! p = Done (Inr v) else confined P Q (heap st ! p))"
    unfolding phase_def by blast
  let ?r = "env (trace st) q"
  let ?N = "Settle p q ?r # issued p (k ?r)"
  have new: "h0 \<le> p \<longrightarrow> h1 \<le> p \<and> P q \<and> confined P Q (k ?r)"
    using H assms(2) Await by (auto split: if_splits)
  have "\<forall>e \<in> set ?N. pid e = p \<and> (h0 \<le> p \<longrightarrow> P (req e))"
    using new by (cases "k ?r") auto
  with E assms(2) new have "\<forall>e \<in> set (E @ ?N).
      pid e < length (heap (settle env p st)) \<and> (h0 \<le> pid e \<longrightarrow> h1 \<le> pid e \<and> P (req e))"
    by auto
  moreover have "trace (settle env p st) = T0 @ (E @ ?N)"
    using E Await by (simp add: settle_def)
  moreover have "\<forall>p' < length (heap (settle env p st)). h0 \<le> p' \<longrightarrow>
        (if p' < h1 then \<exists>v. heap (settle env p st) ! p' = Done (Inr v)
         else confined P Q (heap (settle env p st) ! p'))"
    using H new assms(2) Await by (auto simp: settle_def nth_list_update)
  ultimately show ?thesis unfolding phase_def by blast
qed

lemma phase_promise_all:
  "promise_all env ps st sched = (r, st', sched') \<Longrightarrow> phase h0 h1 P Q T0 st \<Longrightarrow> phase h0 h1 P Q T0 st'"
  by (erule promise_all_invariant) (auto intro: tick_invariant phase_settle)

lemma length_heap_tick [simp]: "length (heap (tick env c st)) = length (heap st)"
  using tick_cases [of env c st] by auto

lemma length_heap_promise_all:
  "promise_all env ps st sched = (r, st', sched') \<Longrightarrow> length (heap st') = length (heap st)"
  by (erule promise_all_invariant [where I = "\<lambda>s. length (heap s) = length (heap st)"]) auto

lemma task_error_not_validation:
  assumes "task_error e"
  shows "\<not> validation_error e"
proof (cases e)
  case (Error m)
  with assms have "take 1 (take 15 m) = ''P''"
    by simp
  then have p: "take 1 m = ''P''"
    by simp
  have "take 11 m \<noteq> CHR 0x22 # ''resolvers.''"
  proof
    assume "take 11 m = CHR 0x22 # ''resolvers.''"
    then have "take 1 (take 11 m) = [CHR 0x22]"
      by simp
    with p show False by simp
  qed
  with Error assms show ?thesis by auto
qed simp_all

lemma confined_mono:
  "confined P Q t \<Longrightarrow> (\<And>q. P q \<Longrightarrow> P' q) \<Longrightarrow> (\<And>e. Q e \<Longrightarrow> Q' e) \<Longrightarrow> confined P' Q' t"
  by (induction t) (auto split: sum.splits)

lemma confined_bind:
  "confined P Q t \<Longrightarrow> (\<And>a. confined P Q (f a)) \<Longrightarrow> confined P Q (task_bind t f)"
  by (induction t) (auto split: sum.splits)

lemma confined_catch:
  "confined P Q' t \<Longrightarrow> (\<And>e. Q' e \<Longrightarrow> confined P Q (h e)) \<Longrightarrow> confined P Q (task_catch t h)"
  by (induction t) (auto split: sum.splits)

lemma confined_map: "confined P Q t \<Longrightarrow> confined P Q (map_task f t)"
  by (induction t) (auto split: sum.splits)

lemma confined_return [simp]: "confined P Q (return a)"
  by (simp add: return_def)

lemma confined_throw [simp]: "confined P Q (throw e) = Q e"
  by (simp add: throw_def)

lemma confined_call: "P q \<Longrightarrow> confined P task_error (call q)"
  by (auto simp: call_def split: aws_response.splits)

lemma confined_listResolvers: "confined listing task_error (listResolvers config a tn)"
  unfolding listResolvers_def
  by (rule confined_catch [where Q' = task_error])
     (auto intro!: confined_bind confined_call split: aws_response.splits)

lemma confined_getExistingDataSourcesNames:
  "confined listing task_error (getExistingDataSourcesNames config a)"
  unfolding getExistingDataSourcesNames_def
  by (auto intro!: confined_bind confined_call split: aws_response.splits)

lemma confined_getRoleArn: "confined upsert_call task_error (getRoleArn config r)"
  unfolding getRoleArn_def
  by (auto intro!: confined_bind confined_call split: aws_response.splits)

lemma confined_getLambdaArn: "confined upsert_call task_error (getLambdaArn config l)"
  unfolding getLambdaArn_def
  by (auto intro!: confined_bind confined_call split: aws_response.splits)

lemma confined_lift_name: "confined P task_error (lift (getDataSourceName n))"
  by (auto simp: lift_def getDataSourceName_def split: option.splits)

lemma confined_dataSourceParams: "confined upsert_call task_error (dataSourceParams config p roleArn)"
  unfolding dataSourceParams_def
  by (auto intro!: confined_bind confined_getLambdaArn confined_lift_name)

lemma confined_dataSourceResult: "confined P task_error (dataSourceResult res)"
  by (auto simp: dataSourceResult_def split: aws_response.splits)

lemma confined_provisionDataSource: "confined upsert_call task_error (provisionDataSource dsp)"
  unfolding provisionDataSource_def
  by (intro confined_catch [where Q' = task_error] confined_bind confined_call
        confined_dataSourceResult)
     (auto intro!: confined_catch [where Q' = task_error] confined_bind confined_call
        confined_dataSourceResult)

lemma confined_deployAppSyncDataSource:
  "confined upsert_call task_error (deployAppSyncDataSource config p)"
  unfolding deployAppSyncDataSource_def
  by (intro confined_bind confined_getRoleArn confined_dataSourceParams
        confined_provisionDataSource)

lemma confined_deployAppSyncResolver:
  "confined upsert_call task_error (deployAppSyncResolver config p)"
  unfolding deployAppSyncResolver_def updateAppSyncResolver_def createAppSyncResolver_def
  by (intro confined_bind confined_deployAppSyncDataSource)
     (auto intro!: confined_catch [where Q' = task_error] confined_call)

lemma for_in_invariant:
  assumes "for_in body xs s = (r, s')" "I s"
      and "\<And>x s r s'. I s \<Longrightarrow> body x s = (r, s') \<Longrightarrow> I s'"
  shows "I s'"
  using assms(1,2)
proof (induction xs arbitrary: s)
  case Nil
  then show ?case by simp
next
  case (Cons x xs)
  obtain r1 s1 where b: "body x s = (r1, s1)" by (cases "body x s")
  have "I s1" by (rule assms(3) [OF Cons.prems(2) b])
  show ?case
  proof (cases r1)
    case None
    with Cons.prems(1) b have "for_in body xs s1 = (r, s')" by simp
    then show ?thesis using \<open>I s1\<close> by (rule Cons.IH)
  next
    case (Some e)
    with Cons.prems(1) b \<open>I s1\<close> show ?thesis by simp
  qed
qed

lemma spawned_init:
  "consistent st \<Longrightarrow> resolved_from h0 st \<Longrightarrow> h0 \<le> length (heap st) \<Longrightarrow> spawned h0 (length (heap st)) P (trace st) ([], st)"
  by (auto simp: spawned_def phase_def resolved_from_def)

lemma spawned_push:
  "spawned h0 h1 P T0 s \<Longrightarrow> confined P task_error t \<Longrightarrow> spawned h0 h1 P T0 (push t s)"
  by (cases s) (auto simp: spawned_def push_def intro: phase_start consistent_start)

lemma spawned_promise_all:
  assumes "promise_all env ps st sched = (w, st', sched')" "spawned h0 h1 P T0 (ps', st)"
  shows "spawned h0 h1 P T0 (ps', st')"
  using assms phase_promise_all [OF assms(1)] consistent_promise_all [OF assms(1)]
    length_heap_promise_all [OF assms(1)]
  by (auto simp: spawned_def)

lemma promise_all_result:
  assumes "promise_all env ps st sched = (w, st', sched')"
  shows "(case w of Resolved vs \<Rightarrow> fulfilment (heap st') ps = Some vs
          | Rejected e \<Rightarrow> rejection (heap st') ps = Some e
          | Starved \<Rightarrow> True)"
  using assms
proof (induction sched arbitrary: st)
  case Nil
  then show ?case by (auto split: option.splits)
next
  case (Cons c sched)
  then show ?case by (auto split: option.splits)
qed

lemma fulfilment_Done: "fulfilment h ps = Some vs \<Longrightarrow> p \<in> set ps \<Longrightarrow> \<exists>v. h ! p = Done (Inr v)"
  by (induction ps arbitrary: vs) (auto split: task.splits sum.splits option.splits)

lemma rejection_Done: "rejection h ps = Some e \<Longrightarrow> \<exists>p \<in> set ps. h ! p = Done (Inl e)"
  by (induction ps) (auto split: task.splits sum.splits)

lemma phase_task:
  assumes "phase h0 h1 P Q T0 st" "p < length (heap st)" "h0 \<le> p" "h1 \<le> p"
  shows "confined P Q (heap st ! p)"
proof -
  from assms(1) have "\<forall>p < length (heap st). h0 \<le> p \<longrightarrow>
        (if p < h1 then \<exists>v. heap st ! p = Done (Inr v) else confined P Q (heap st ! p))"
    unfolding phase_def by blast
  with assms(2,3) have "if p < h1 then \<exists>v. heap st ! p = Done (Inr v) else confined P Q (heap st ! p)"
    by blast
  with assms(4) show ?thesis by simp
qed

lemma spawned_rejected:
  assumes "spawned h0 h1 P T0 (ps, st)" "rejection (heap st) ps = Some e"
  shows "task_error e"
proof -
  from rejection_Done [OF assms(2)] obtain p where p: "p \<in> set ps" "heap st ! p = Done (Inl e)"
    by blast
  with assms(1) have "h1 \<le> p" "p < length (heap st)" "h0 \<le> p"
    by (auto simp: spawned_def)
  moreover from assms(1) have "phase h0 h1 P task_error T0 st"
    by (simp add: spawned_def)
  ultimately have "confined P task_error (heap st ! p)"
    by (intro phase_task)
  with p(2) show ?thesis by simp
qed

lemma spawned_resolved:
  assumes "spawned h0 h1 P T0 (ps, st)" "fulfilment (heap st) ps = Some vs"
  shows "resolved_from h0 st"
  unfolding resolved_from_def
proof (intro allI impI)
  fix p assume p: "p < length (heap st)" "h0 \<le> p"
  show "\<exists>v. heap st ! p = Done (Inr v)"
  proof (cases "p < h1")
    case True
    with assms(1) p show ?thesis by (auto simp: spawned_def phase_def)
  next
    case False
    with assms(1) p have "p \<in> set ps" by (auto simp: spawned_def)
    with assms(2) show ?thesis by (rule fulfilment_Done)
  qed
qed

lemma spawned_trace:
  assumes "spawned h0 h1 P T0 (ps, st)"
  shows "\<exists>E. trace st = T0 @ E \<and>
           (\<forall>e \<in> set E. pid e < length (heap st) \<and> (h0 \<le> pid e \<longrightarrow> h1 \<le> pid e \<and> P (req e)))"
  using assms by (auto simp: spawned_def phase_def)

lemma spawned_upsertField:
  assumes "upsertField config a r ty x s = (res, s')" "spawned h0 h1 P T0 s"
      and "\<And>q. upsert_call q \<Longrightarrow> P q"
  shows "spawned h0 h1 P T0 s'"
proof -
  have "confined P task_error (map_task VResponse (deployAppSyncResolver config p))" for p :: params
    by (intro confined_map confined_mono [OF confined_deployAppSyncResolver] assms(3))
  with assms(1,2) show ?thesis
    by (cases x) (auto simp: upsertField_def intro: spawned_push split: if_splits)
qed

lemma spawned_upsertType:
  assumes "upsertType config a r x s = (res, s')" "spawned h0 h1 P T0 s"
      and "\<And>q. upsert_call q \<Longrightarrow> P q"
  shows "spawned h0 h1 P T0 s'"
proof (cases x)
  case (Pair ty v)
  show ?thesis
  proof (cases "typeof v = ''object''")
    case True
    with assms(1) Pair have "for_in (upsertField config a r ty) (entries v) s = (res, s')"
      by (simp add: upsertType_def)
    then show ?thesis using assms(2)
      by (rule for_in_invariant) (rule spawned_upsertField [OF _ _ assms(3)])
  next
    case False
    with assms(1,2) Pair show ?thesis by (simp add: upsertType_def)
  qed
qed

lemma spawned_deleteField:
  assumes "deleteField resolvers a ty x s = (res, s')" "spawned h0 h1 P T0 s"
      and "\<And>q. resolver_delete q \<Longrightarrow> P q"
  shows "spawned h0 h1 P T0 s'"
proof -
  have "confined P task_error (map_task VResponse (call (DeleteResolver a f ty)))" for f
    by (intro confined_map confined_call assms(3)) simp
  with assms(1,2) show ?thesis
    by (cases x) (auto simp: deleteField_def intro: spawned_push split: sum.splits bool.splits)
qed

lemma spawned_deleteType:
  assumes "deleteType resolvers a x s = (res, s')" "spawned h0 h1 P T0 s"
      and "\<And>q. resolver_delete q \<Longrightarrow> P q"
  shows "spawned h0 h1 P T0 s'"
proof (cases x)
  case (Pair ty fields)
  with assms(1) have "for_in (deleteField resolvers a ty) fields s = (res, s')"
    by (simp add: deleteType_def)
  then show ?thesis using assms(2)
    by (rule for_in_invariant) (rule spawned_deleteField [OF _ _ assms(3)])
qed

lemma spawned_removeOutdated:
  assumes "spawned h0 h1 P T0 s" "\<And>q. data_source_delete q \<Longrightarrow> P q"
  shows "spawned h0 h1 P T0 (fold (removeOutdated a names) existing s)"
  using assms(1)
proof (induction existing arbitrary: s)
  case Nil
  then show ?case by simp
next
  case (Cons n existing)
  have "confined P task_error (map_task VResponse (call (DeleteDataSource a n)))"
    by (intro confined_map confined_call assms(2)) simp
  with Cons.prems have "spawned h0 h1 P T0 (removeOutdated a names n s)"
    by (auto simp: removeOutdated_def intro: spawned_push)
  then show ?case by (simp add: Cons.IH)
qed

lemma upsert_not_dsd: "upsert_call q \<Longrightarrow> \<not> data_source_delete q"
  by (cases q) auto

lemma delete_not_dsd: "resolver_delete q \<Longrightarrow> \<not> data_source_delete q"
  by (cases q) auto

lemma listing_not_dsd: "listing q \<Longrightarrow> \<not> data_source_delete q"
  by (cases q) auto

lemma resolved_not_outstanding:
  assumes "consistent st" "resolved_from h0 st" "h0 \<le> p" "p < length (heap st)"
  shows "\<not> outstanding (trace st) p"
proof -
  from assms(2-4) obtain v where "heap st ! p = Done (Inr v)"
    unfolding resolved_from_def by blast
  with assms(1,4) have "issues (trace st) p = settles (trace st) p"
    unfolding consistent_def by auto
  then show ?thesis by (simp add: outstanding_def)
qed

lemma snapshot_spawned:
  assumes "snapshot env config a st sched = (w, st1, sched1)" "consistent st"
  shows "\<exists>ps. spawned (length (heap st)) (length (heap st)) listing (trace st) (ps, st1)
            \<and> (case w of Resolved vs \<Rightarrow> fulfilment (heap st1) ps = Some vs
               | Rejected e \<Rightarrow> rejection (heap st1) ps = Some e
               | Starved \<Rightarrow> True)"
proof -
  let ?h = "length (heap st)"
  let ?t1 = "map_task VResolvers (listResolvers config a ''Query'')"
  let ?t2 = "map_task VResolvers (listResolvers config a ''Mutation'')"
  let ?t3 = "map_task VNames (getExistingDataSourcesNames config a)"
  have "spawned ?h ?h listing (trace st) ([], st)"
    using assms(2) by (intro spawned_init) (simp_all add: resolved_from_def)
  then have "spawned ?h ?h listing (trace st) (push ?t3 (push ?t2 (push ?t1 ([], st))))"
    by (intro spawned_push confined_map confined_listResolvers
          confined_getExistingDataSourcesNames)
  moreover obtain ps st0 where p: "push ?t3 (push ?t2 (push ?t1 ([], st))) = (ps, st0)"
    by (cases "push ?t3 (push ?t2 (push ?t1 ([], st)))")
  ultimately have s0: "spawned ?h ?h listing (trace st) (ps, st0)"
    by simp
  from assms(1) p have pa: "promise_all env ps st0 sched = (w, st1, sched1)"
    by (simp add: snapshot_def getExistingResolvers_def)
  from spawned_promise_all [OF pa s0] promise_all_result [OF pa] show ?thesis
    by blast
qed

lemma reconcile_phases:
  assumes R: "reconcile env config a r resolvers ex names st sched = (out, st', sched')"
      and c: "consistent st" and rf: "resolved_from h0 st" and le: "h0 \<le> length (heap st)"
  shows "(\<exists>E. trace st' = trace st @ E
             \<and> (\<forall>e \<in> set E. pid e < length (heap st')
                  \<and> (h0 \<le> pid e \<longrightarrow> \<not> data_source_delete (req e))))
       \<or> (\<exists>E2 E3 h. trace st' = (trace st @ E2) @ E3 \<and> length (heap st) \<le> h
             \<and> (\<forall>e \<in> set E2. pid e < h \<and> (h0 \<le> pid e \<longrightarrow> \<not> data_source_delete (req e)))
             \<and> (\<forall>p. h0 \<le> p \<and> p < h \<longrightarrow> \<not> outstanding (trace st @ E2) p)
             \<and> (\<forall>e \<in> set E3. pid e < length (heap st')
                  \<and> (h0 \<le> pid e \<longrightarrow> h \<le> pid e \<and> data_source_delete (req e))))"
proof -
  let ?P = "\<lambda>q. \<not> data_source_delete q"
  let ?S = "spawned h0 (length (heap st)) ?P (trace st)"
  have early: ?thesis if "?S (ps, st')" for ps
    using spawned_trace [OF that] by auto
  obtain e1 ps1 st1 where
    U: "for_in (upsertType config a r) (entries resolvers) ([], st) = (e1, ps1, st1)"
    by (metis prod_cases3)
  have "?S ([], st)"
    using c rf le by (rule spawned_init)
  with U have S1: "?S (ps1, st1)"
    by (rule for_in_invariant) (rule spawned_upsertType [OF _ _ upsert_not_dsd])
  show ?thesis
  proof (cases e1)
    case (Some e)
    with R U have "st' = st1" by (simp add: reconcile_def)
    with S1 have "?S (ps1, st')" by simp
    then show ?thesis by (rule early)
  next
    case None
    obtain e2 ps2 st2 where
      D: "for_in (deleteType resolvers a) ex (ps1, st1) = (e2, ps2, st2)"
      by (metis prod_cases3)
    from D S1 have S2: "?S (ps2, st2)"
      by (rule for_in_invariant) (rule spawned_deleteType [OF _ _ delete_not_dsd])
    show ?thesis
    proof (cases e2)
      case (Some e)
      with R U D None have "st' = st2" by (simp add: reconcile_def)
      with S2 have "?S (ps2, st')" by simp
      then show ?thesis by (rule early)
    next
      case None2: None
      obtain w st3 sched3 where
        A: "promise_all env ps2 st2 sched = (w, st3, sched3)"
        by (metis prod_cases3)
      from A S2 have S3: "?S (ps2, st3)"
        by (rule spawned_promise_all)
      have unresolved: ?thesis if "st' = st3"
      proof -
        from that S3 have "?S (ps2, st')" by simp
        then show ?thesis by (rule early)
      qed
      show ?thesis
      proof (cases w)
        case (Rejected e)
        with R U D None None2 A have "st' = st3" by (simp add: reconcile_def)
        then show ?thesis by (rule unresolved)
      next
        case Starved
        with R U D None None2 A have "st' = st3" by (simp add: reconcile_def)
        then show ?thesis by (rule unresolved)
      next
        case (Resolved vs)
        with promise_all_result [OF A] have "fulfilment (heap st3) ps2 = Some vs"
          by simp
        with S3 have rf3: "resolved_from h0 st3"
          by (rule spawned_resolved)
        from S3 have c3: "consistent st3" and le3: "h0 \<le> length (heap st3)"
          by (auto simp: spawned_def)
        obtain e4 dsn where G: "getDataSourcesNames resolvers = (e4, dsn)"
          by (cases "getDataSourcesNames resolvers")
        show ?thesis
        proof (cases e4)
          case (Some e)
          with R U D None None2 A Resolved G have "st' = st3" by (simp add: reconcile_def)
          then show ?thesis by (rule unresolved)
        next
          case None4: None
          let ?S' = "spawned h0 (length (heap st3)) data_source_delete (trace st3)"
          obtain ps4 st4 where
            F: "fold (removeOutdated a dsn) names ([], st3) = (ps4, st4)"
            by (cases "fold (removeOutdated a dsn) names ([], st3)")
          obtain w' st5 sched5 where
            B: "promise_all env ps4 st4 sched3 = (w', st5, sched5)"
            by (metis prod_cases3)
          from R U D None None2 A Resolved G None4 F B have st5: "st' = st5"
            by (simp add: reconcile_def split: awaited.splits)
          have "?S' ([], st3)"
            using c3 rf3 le3 by (rule spawned_init)
          then have "?S' (fold (removeOutdated a dsn) names ([], st3))"
            by (rule spawned_removeOutdated) simp
          with F have "?S' (ps4, st4)" by simp
          with B have "?S' (ps4, st5)" by (rule spawned_promise_all)
          from spawned_trace [OF this] obtain E3 where E3: "trace st5 = trace st3 @ E3"
            "\<forall>e \<in> set E3. pid e < length (heap st5)
               \<and> (h0 \<le> pid e \<longrightarrow> length (heap st3) \<le> pid e \<and> data_source_delete (req e))"
            by blast
          from spawned_trace [OF S3] obtain E2 where E2: "trace st3 = trace st @ E2"
            "\<forall>e \<in> set E2. pid e < length (heap st3) \<and> (h0 \<le> pid e \<longrightarrow> \<not> data_source_delete (req e))"
            by blast
          have "\<forall>p. h0 \<le> p \<and> p < length (heap st3) \<longrightarrow> \<not> outstanding (trace st @ E2) p"
            using resolved_not_outstanding [OF c3 rf3] E2(1) by auto
          moreover from S3 have "length (heap st) \<le> length (heap st3)"
            by (simp add: spawned_def)
          ultimately have "trace st' = (trace st @ E2) @ E3 \<and> length (heap st) \<le> length (heap st3)
             \<and> (\<forall>e \<in> set E2. pid e < length (heap st3)
                   \<and> (h0 \<le> pid e \<longrightarrow> \<not> data_source_delete (req e)))
             \<and> (\<forall>p. h0 \<le> p \<and> p < length (heap st3) \<longrightarrow> \<not> outstanding (trace st @ E2) p)
             \<and> (\<forall>e \<in> set E3. pid e < length (heap st')
                  \<and> (h0 \<le> pid e \<longrightarrow> length (heap st3) \<le> pid e \<and> data_source_delete (req e)))"
            using E2 E3 st5 by simp
          then show ?thesis by blast
        qed
      qed
    qed
  qed
qed

lemma attempt_phases:
  assumes A: "attempt env config apiId' roleName' resolvers st sched = (out, st', sched')"
      and c: "consistent st"
  shows "(\<exists>E. trace st' = trace st @ E
             \<and> (\<forall>e \<in> set E. length (heap st) \<le> pid e \<longrightarrow> \<not> data_source_delete (req e)))
       \<or> (\<exists>T E3 h. trace st' = T @ E3
             \<and> (\<forall>e \<in> set T. pid e < h \<and> (length (heap st) \<le> pid e \<longrightarrow> \<not> data_source_delete (req e)))
             \<and> (\<forall>p. length (heap st) \<le> p \<and> p < h \<longrightarrow> \<not> outstanding T p)
             \<and> (\<forall>e \<in> set E3. length (heap st) \<le> pid e \<longrightarrow> h \<le> pid e \<and> data_source_delete (req e)))"
proof -
  let ?h0 = "length (heap st)"
  let ?early = "\<exists>E. trace st' = trace st @ E
             \<and> (\<forall>e \<in> set E. ?h0 \<le> pid e \<longrightarrow> \<not> data_source_delete (req e))"
  show ?thesis
  proof (cases "truthy apiId' \<and> truthy roleName' \<and> typeof resolvers = ''object''")
    case False
    with A have "st' = st" by (auto simp: attempt_def split: if_splits)
    then have ?early by simp
    then show ?thesis ..
  next
    case True
    obtain w st1 sched1 where S: "snapshot env config (the apiId') st sched = (w, st1, sched1)"
      by (metis prod_cases3)
    from snapshot_spawned [OF S c] obtain ps where
      sp: "spawned ?h0 ?h0 listing (trace st) (ps, st1)" and
      res: "case w of Resolved vs \<Rightarrow> fulfilment (heap st1) ps = Some vs
            | Rejected e \<Rightarrow> rejection (heap st1) ps = Some e | Starved \<Rightarrow> True"
      by blast
    from spawned_trace [OF sp] obtain E1 where E1: "trace st1 = trace st @ E1"
      "\<forall>e \<in> set E1. pid e < length (heap st1) \<and> (?h0 \<le> pid e \<longrightarrow> listing (req e))"
      by auto
    have stop: ?thesis if "st' = st1"
    proof -
      from that E1 have ?early by (auto dest: listing_not_dsd)
      then show ?thesis ..
    qed
    from A True S have "(\<exists>q m ns. w = Resolved [VResolvers q, VResolvers m, VNames ns] \<and>
         reconcile env config (the apiId') (the roleName') resolvers
           [(''Query'', q), (''Mutation'', m)] ns st1 sched1 = (out, st', sched')) \<or> st' = st1"
      by (auto simp: attempt_def split: awaited.splits list.splits val.splits)
    then show ?thesis
    proof
      assume "st' = st1"
      then show ?thesis by (rule stop)
    next
      assume "\<exists>q m ns. w = Resolved [VResolvers q, VResolvers m, VNames ns] \<and>
         reconcile env config (the apiId') (the roleName') resolvers
           [(''Query'', q), (''Mutation'', m)] ns st1 sched1 = (out, st', sched')"
      then obtain q m ns where w: "w = Resolved [VResolvers q, VResolvers m, VNames ns]"
        and R: "reconcile env config (the apiId') (the roleName') resolvers
           [(''Query'', q), (''Mutation'', m)] ns st1 sched1 = (out, st', sched')"
        by blast
      from res w have "fulfilment (heap st1) ps = Some [VResolvers q, VResolvers m, VNames ns]"
        by simp
      with sp have rf: "resolved_from ?h0 st1" by (rule spawned_resolved)
      from sp have c1: "consistent st1" and le: "?h0 \<le> length (heap st1)"
        by (auto simp: spawned_def)
      from c have old: "\<forall>e \<in> set (trace st). pid e < ?h0"
        by (simp add: consistent_def)
      from reconcile_phases [OF R c1 rf le] show ?thesis
      proof
        assume "\<exists>E. trace st' = trace st1 @ E
             \<and> (\<forall>e \<in> set E. pid e < length (heap st')
                  \<and> (?h0 \<le> pid e \<longrightarrow> \<not> data_source_delete (req e)))"
        then obtain E where "trace st' = trace st @ (E1 @ E)"
          "\<forall>e \<in> set (E1 @ E). ?h0 \<le> pid e \<longrightarrow> \<not> data_source_delete (req e)"
          using E1 by (auto dest: listing_not_dsd)
        then have ?early by blast
        then show ?thesis ..
      next
        assume "\<exists>E2 E3 h. trace st' = (trace st1 @ E2) @ E3 \<and> length (heap st1) \<le> h
             \<and> (\<forall>e \<in> set E2. pid e < h \<and> (?h0 \<le> pid e \<longrightarrow> \<not> data_source_delete (req e)))
             \<and> (\<forall>p. ?h0 \<le> p \<and> p < h \<longrightarrow> \<not> outstanding (trace st1 @ E2) p)
             \<and> (\<forall>e \<in> set E3. pid e < length (heap st')
                  \<and> (?h0 \<le> pid e \<longrightarrow> h \<le> pid e \<and> data_source_delete (req e)))"
        then obtain E2 E3 h where *: "trace st' = (trace st1 @ E2) @ E3" "length (heap st1) \<le> h"
            "\<forall>e \<in> set E2. pid e < h \<and> (?h0 \<le> pid e \<longrightarrow> \<not> data_source_delete (req e))"
            "\<forall>p. ?h0 \<le> p \<and> p < h \<longrightarrow> \<not> outstanding (trace st1 @ E2) p"
            "\<forall>e \<in> set E3. ?h0 \<le> pid e \<longrightarrow> h \<le> pid e \<and> data_source_delete (req e)"
          by blast
        have "\<forall>e \<in> set (trace st1 @ E2). pid e < h
                \<and> (?h0 \<le> pid e \<longrightarrow> \<not> data_source_delete (req e))"
          using old E1 le *(2,3) by (fastforce dest: listing_not_dsd)
        with * have "trace st' = (trace st1 @ E2) @ E3
             \<and> (\<forall>e \<in> set (trace st1 @ E2). pid e < h
                   \<and> (?h0 \<le> pid e \<longrightarrow> \<not> data_source_delete (req e)))
             \<and> (\<forall>p. ?h0 \<le> p \<and> p < h \<longrightarrow> \<not> outstanding (trace st1 @ E2) p)
             \<and> (\<forall>e \<in> set E3. ?h0 \<le> pid e \<longrightarrow> h \<le> pid e \<and> data_source_delete (req e))"
          by blast
        then show ?thesis by blast
      qed
    qed
  qed
qed

lemma split_after:
  assumes "T @ E = pre @ ev # post" "ev \<notin> set T"
  shows "\<exists>pre'. pre = T @ pre' \<and> E = pre' @ ev # post"
proof -
  from assms(1) obtain us where
    "(T = pre @ us \<and> us @ E = ev # post) \<or> (T @ us = pre \<and> E = us @ ev # post)"
    unfolding append_eq_append_conv2 by blast
  then show ?thesis
  proof
    assume a: "T = pre @ us \<and> us @ E = ev # post"
    show ?thesis
    proof (cases us)
      case Nil
      with a show ?thesis by simp
    next
      case (Cons u us')
      with a assms(2) show ?thesis by simp
    qed
  next
    assume "T @ us = pre \<and> E = us @ ev # post"
    then show ?thesis by blast
  qed
qed

lemma settled_when_deleting:
  assumes A: "attempt env config apiId' roleName' resolvers st sched = (out, st', sched')"
      and c: "consistent st"
      and tr: "trace st' = pre @ Issue p (DeleteDataSource a n) # post"
      and p: "length (heap st) \<le> p"
      and q: "Issue p' q \<in> set pre" "length (heap st) \<le> p'" "\<not> data_source_delete q"
  shows "\<not> outstanding pre p'"
proof -
  let ?ev = "Issue p (DeleteDataSource a n)"
  from c have old: "\<forall>e \<in> set (trace st). pid e < length (heap st)"
    by (simp add: consistent_def)
  from attempt_phases [OF A c] show ?thesis
  proof
    assume "\<exists>E. trace st' = trace st @ E
             \<and> (\<forall>e \<in> set E. length (heap st) \<le> pid e \<longrightarrow> \<not> data_source_delete (req e))"
    then obtain E where E: "trace st' = trace st @ E"
      "\<forall>e \<in> set E. length (heap st) \<le> pid e \<longrightarrow> \<not> data_source_delete (req e)"
      by blast
    have "?ev \<in> set (trace st')" using tr by simp
    with E p old have False by fastforce
    then show ?thesis ..
  next
    assume "\<exists>T E3 h. trace st' = T @ E3
             \<and> (\<forall>e \<in> set T. pid e < h \<and> (length (heap st) \<le> pid e \<longrightarrow> \<not> data_source_delete (req e)))
             \<and> (\<forall>p. length (heap st) \<le> p \<and> p < h \<longrightarrow> \<not> outstanding T p)
             \<and> (\<forall>e \<in> set E3. length (heap st) \<le> pid e \<longrightarrow> h \<le> pid e \<and> data_source_delete (req e))"
    then obtain T E3 h where *: "trace st' = T @ E3"
      "\<forall>e \<in> set T. pid e < h \<and> (length (heap st) \<le> pid e \<longrightarrow> \<not> data_source_delete (req e))"
      "\<forall>p. length (heap st) \<le> p \<and> p < h \<longrightarrow> \<not> outstanding T p"
      "\<forall>e \<in> set E3. length (heap st) \<le> pid e \<longrightarrow> h \<le> pid e \<and> data_source_delete (req e)"
      by blast
    have "?ev \<notin> set T" using *(2) p by fastforce
    with tr *(1) obtain pre' where pre': "pre = T @ pre'" "E3 = pre' @ ?ev # post"
      using split_after [of T E3 pre ?ev post] by auto
    have "Issue p' q \<notin> set pre'"
    proof
      assume "Issue p' q \<in> set pre'"
      with pre'(2) have "Issue p' q \<in> set E3" by simp
      with *(4) have "length (heap st) \<le> pid (Issue p' q) \<longrightarrow> data_source_delete (req (Issue p' q))"
        by blast
      with q(2,3) show False by simp
    qed
    with q(1) pre'(1) have in_T: "Issue p' q \<in> set T"
      by simp
    with *(2) have "p' < h" by fastforce
    with *(3) q(2) have "\<not> outstanding T p'" by blast
    moreover have "\<forall>e \<in> set pre'. pid e \<noteq> p'"
    proof
      fix e assume "e \<in> set pre'"
      with pre'(2) have "e \<in> set E3" by simp
      with *(4) have "length (heap st) \<le> pid e \<longrightarrow> h \<le> pid e" by blast
      with \<open>p' < h\<close> q(2) show "pid e \<noteq> p'" by auto
    qed
    then have "issues pre' p' = 0 \<and> settles pre' p' = 0" by (rule no_events)
    ultimately show ?thesis using pre'(1) by (simp add: outstanding_def)
  qed
qed

lemma only_deletes_follow:
  assumes A: "attempt env config apiId' roleName' resolvers st sched = (out, st', sched')"
      and c: "consistent st"
      and tr: "trace st' = pre @ Issue p (DeleteDataSource a n) # post"
      and p: "length (heap st) \<le> p"
  shows "\<forall>ev \<in> set post. length (heap st) \<le> pid ev \<longrightarrow> data_source_delete (req ev)"
proof -
  let ?ev = "Issue p (DeleteDataSource a n)"
  from c have old: "\<forall>e \<in> set (trace st). pid e < length (heap st)"
    by (simp add: consistent_def)
  from attempt_phases [OF A c] show ?thesis
  proof
    assume "\<exists>E. trace st' = trace st @ E
             \<and> (\<forall>e \<in> set E. length (heap st) \<le> pid e \<longrightarrow> \<not> data_source_delete (req e))"
    then obtain E where E: "trace st' = trace st @ E"
      "\<forall>e \<in> set E. length (heap st) \<le> pid e \<longrightarrow> \<not> data_source_delete (req e)"
      by blast
    have "?ev \<in> set (trace st')" using tr by simp
    with E p old have False by fastforce
    then show ?thesis ..
  next
    assume "\<exists>T E3 h. trace st' = T @ E3
             \<and> (\<forall>e \<in> set T. pid e < h \<and> (length (heap st) \<le> pid e \<longrightarrow> \<not> data_source_delete (req e)))
             \<and> (\<forall>p. length (heap st) \<le> p \<and> p < h \<longrightarrow> \<not> outstanding T p)
             \<and> (\<forall>e \<in> set E3. length (heap st) \<le> pid e \<longrightarrow> h \<le> pid e \<and> data_source_delete (req e))"
    then obtain T E3 h where *: "trace st' = T @ E3"
      "\<forall>e \<in> set T. pid e < h \<and> (length (heap st) \<le> pid e \<longrightarrow> \<not> data_source_delete (req e))"
      "\<forall>e \<in> set E3. length (heap st) \<le> pid e \<longrightarrow> h \<le> pid e \<and> data_source_delete (req e)"
      by blast
    have "?ev \<notin> set T" using *(2) p by fastforce
    with tr *(1) obtain pre' where pre': "pre = T @ pre'" "E3 = pre' @ ?ev # post"
      using split_after [of T E3 pre ?ev post] by auto
    show ?thesis
    proof
      fix ev assume "ev \<in> set post"
      with pre'(2) have "ev \<in> set E3" by simp
      with *(3) show "length (heap st) \<le> pid ev \<longrightarrow> data_source_delete (req ev)" by blast
    qed
  qed
qed

lemma feed_Done [simp]: "feed (Done x) rs = ([], Done x)"
  by (cases rs) simp_all

lemmas task_defs = call_def return_def throw_def lift_def


lemma run_collapse: "x = (fst x, fst (snd x), snd (snd x))"
  by simp

lemma consistent_init: "consistent init"
  by (simp add: init_def consistent_def)

section \<open>Where a thrown error comes from\<close>




lemma for_in_error:
  assumes "for_in body xs s = (Some e, s')"
  obtains x s0 s1 where "x \<in> set xs" "body x s0 = (Some e, s1)"
  using assms
proof (induction xs arbitrary: s thesis)
  case Nil
  then show ?case by simp
next
  case (Cons x xs)
  obtain r1 s1 where b: "body x s = (r1, s1)" by (cases "body x s")
  show ?case
  proof (cases r1)
    case None
    with Cons.prems(2) b have "for_in body xs s1 = (Some e, s')" by simp
    then show ?thesis
      by (rule Cons.IH [rotated]) (rule Cons.prems(1), auto)
  next
    case (Some e')
    with Cons.prems(2) b have "body x s = (Some e, s1)" by simp
    then show ?thesis by (rule Cons.prems(1) [rotated]) simp
  qed
qed

lemma deleteType_error:
  assumes "for_in (deleteType resolvers a) ex s = (Some e, s')"
  shows "\<not> validation_error e"
proof -
  from assms obtain x s0 s1 where "deleteType resolvers a x s0 = (Some e, s1)"
    by (rule for_in_error)
  then obtain ty fields where "for_in (deleteField resolvers a ty) fields s0 = (Some e, s1)"
    by (cases x) (simp add: deleteType_def)
  then obtain y s2 s3 where "deleteField resolvers a ty y s2 = (Some e, s3)"
    by (rule for_in_error)
  then obtain f where "notDesired resolvers ty f = Inl e"
    by (cases y) (auto simp: deleteField_def split: sum.splits bool.splits)
  then obtain m where "e = TypeError m"
    by (cases resolvers; cases "js_get resolvers ty")
       (auto simp: notDesired_def split: sum.splits option.splits if_splits js.splits
          elim!: js_get.elims)
  then show ?thesis by simp
qed

lemma dataSourceNameOf_error:
  assumes "dataSourceNameOf x names = (Some e, names')"
  shows "\<not> validation_error e"
proof -
  obtain f v where x: "x = (f, v)" by (cases x)
  from assms x obtain m where "e = TypeError m"
    by (cases v) (auto simp: dataSourceNameOf_def getDataSourceName_def split: sum.splits option.splits)
  then show ?thesis by simp
qed

lemma getDataSourcesNames_error:
  assumes "getDataSourcesNames resolvers = (Some e, names)"
  shows "\<not> validation_error e"
proof -
  from assms obtain x s0 s1 where "dataSourceNamesOfType x s0 = (Some e, s1)"
    unfolding getDataSourcesNames_def by (rule for_in_error)
  then obtain v where "for_in dataSourceNameOf (entries v) s0 = (Some e, s1)"
    by (cases x) (simp add: dataSourceNamesOfType_def)
  then obtain y s2 s3 where "dataSourceNameOf y s2 = (Some e, s3)"
    by (rule for_in_error)
  then show ?thesis by (rule dataSourceNameOf_error)
qed

lemma issued_deployAppSyncResolver:
  "issued p (map_task f (deployAppSyncResolver config prm)) = [Issue p (GetRoleArn (roleName prm))]"
  by (simp add: deployAppSyncResolver_def deployAppSyncDataSource_def getRoleArn_def call_def)

lemma upsertField_quiet:
  assumes "extends_quietly T0 s" "upsertField config a r ty x s = (res, s')"
  shows "extends_quietly T0 s'"
proof -
  obtain f v where x: "x = (f, v)" by (cases x)
  obtain ps st where s: "s = (ps, st)" by (cases s)
  show ?thesis
  proof (cases "typeof v = ''object''")
    case True
    with assms x s show ?thesis
      by (auto simp: upsertField_def push_def extends_quietly_def issued_deployAppSyncResolver
            quiet_trace_def)
  next
    case False
    with assms x show ?thesis by (simp add: upsertField_def)
  qed
qed

lemma upsertType_quiet:
  assumes "extends_quietly T0 s" "upsertType config a r x s = (res, s')"
  shows "extends_quietly T0 s'"
proof -
  obtain ty v where x: "x = (ty, v)" by (cases x)
  show ?thesis
  proof (cases "typeof v = ''object''")
    case True
    with assms(2) x have "for_in (upsertField config a r ty) (entries v) s = (res, s')"
      by (simp add: upsertType_def)
    then show ?thesis using assms(1)
      by (rule for_in_invariant) (rule upsertField_quiet)
  next
    case False
    with assms x show ?thesis by (simp add: upsertType_def)
  qed
qed

lemma upsert_loop_quiet:
  assumes "for_in (upsertType config a r) xs (ps, st) = (res, ps', st')"
  shows "\<exists>E. trace st' = trace st @ E \<and> quiet_trace E"
proof -
  have "extends_quietly (trace st) (ps, st)"
    by (simp add: extends_quietly_def quiet_trace_def)
  with assms have "extends_quietly (trace st) (ps', st')"
    by (rule for_in_invariant) (rule upsertType_quiet)
  then show ?thesis by (simp add: extends_quietly_def)
qed

lemma upsertField_shape:
  "fst (for_in (upsertField config a r ty) fs s) = fst (for_in (upsertField config a r ty) fs s')"
proof (induction fs arbitrary: s s')
  case Nil
  then show ?case by simp
next
  case (Cons x fs)
  obtain f v where x: "x = (f, v)" by (cases x)
  show ?case
  proof (cases "typeof v = ''object''")
    case True
    then show ?thesis using Cons.IH x by (simp add: upsertField_def)
  next
    case False
    then show ?thesis using x by (simp add: upsertField_def)
  qed
qed

lemma upsertType_shape:
  "fst (for_in (upsertType config a r) xs s) = fst (for_in (upsertType config a r) xs s')"
proof (induction xs arbitrary: s s')
  case Nil
  then show ?case by simp
next
  case (Cons x xs)
  obtain ty v where x: "x = (ty, v)" by (cases x)
  show ?case
  proof (cases "typeof v = ''object''")
    case False
    then show ?thesis using x by (simp add: upsertType_def)
  next
    case True
    obtain r1 s1 where 1: "for_in (upsertField config a r ty) (entries v) s = (r1, s1)"
      by (cases "for_in (upsertField config a r ty) (entries v) s")
    obtain r2 s2 where 2: "for_in (upsertField config a r ty) (entries v) s' = (r2, s2)"
      by (cases "for_in (upsertField config a r ty) (entries v) s'")
    from upsertField_shape [of config a r ty "entries v" s s'] 1 2 have r: "r2 = r1"
      by simp
    have u1: "upsertType config a r x s = (r1, s1)"
      using True x 1 by (simp add: upsertType_def)
    have u2: "upsertType config a r x s' = (r1, s2)"
      using True x 2 r by (simp add: upsertType_def)
    show ?thesis
    proof (cases r1)
      case None
      with u1 u2 Cons.IH [of s1 s2] show ?thesis by simp
    next
      case (Some e)
      with u1 u2 show ?thesis by simp
    qed
  qed
qed

lemma reconcile_run [consumes 4, case_names upsert_error delete_error unresolved names_error deleting]:
  assumes R: "reconcile env config a r resolvers ex names st sched = (out, st', sched')"
      and c: "consistent st" and rf: "resolved_from h0 st" and le: "h0 \<le> length (heap st)"
  obtains
    (upsert_error) e ps where
      "for_in (upsertType config a r) (entries resolvers) ([], st) = (Some e, ps, st')"
      "out = Threw e"
      "spawned h0 (length (heap st)) (\<lambda>q. \<not> data_source_delete q) (trace st) (ps, st')"
  | (delete_error) e ps1 st1 ps where
      "for_in (upsertType config a r) (entries resolvers) ([], st) = (None, ps1, st1)"
      "for_in (deleteType resolvers a) ex (ps1, st1) = (Some e, ps, st')"
      "out = Threw e"
      "spawned h0 (length (heap st)) (\<lambda>q. \<not> data_source_delete q) (trace st) (ps, st')"
  | (unresolved) ps1 st1 ps st2 w where
      "for_in (upsertType config a r) (entries resolvers) ([], st) = (None, ps1, st1)"
      "promise_all env ps st2 sched = (w, st', sched')"
      "(\<exists>e. w = Rejected e \<and> out = Threw e \<and> task_error e) \<or> (w = Starved \<and> out = Pending)"
      "spawned h0 (length (heap st)) (\<lambda>q. \<not> data_source_delete q) (trace st) (ps, st')"
  | (names_error) ps1 st1 ps e dsn where
      "for_in (upsertType config a r) (entries resolvers) ([], st) = (None, ps1, st1)"
      "getDataSourcesNames resolvers = (Some e, dsn)"
      "out = Threw e"
      "spawned h0 (length (heap st)) (\<lambda>q. \<not> data_source_delete q) (trace st) (ps, st')"
  | (deleting) ps1 st1 ps st3 ps4 and w :: "val list awaited" where
      "for_in (upsertType config a r) (entries resolvers) ([], st) = (None, ps1, st1)"
      "spawned h0 (length (heap st)) (\<lambda>q. \<not> data_source_delete q) (trace st) (ps, st3)"
      "resolved_from h0 st3"
      "spawned h0 (length (heap st3)) data_source_delete (trace st3) (ps4, st')"
      "(\<exists>e. w = Rejected e \<and> out = Threw e \<and> task_error e) \<or> (w = Starved \<and> out = Pending)
         \<or> (\<exists>vs. w = Resolved vs \<and> out = Returned)"
proof -
  let ?P = "\<lambda>q. \<not> data_source_delete q"
  let ?S = "spawned h0 (length (heap st)) ?P (trace st)"
  obtain e1 ps1 st1 where
    U: "for_in (upsertType config a r) (entries resolvers) ([], st) = (e1, ps1, st1)"
    by (metis prod_cases3)
  have "?S ([], st)"
    using c rf le by (rule spawned_init)
  with U have S1: "?S (ps1, st1)"
    by (rule for_in_invariant) (rule spawned_upsertType [OF _ _ upsert_not_dsd])
  show ?thesis
  proof (cases e1)
    case (Some e)
    with R U have "st' = st1" "out = Threw e" by (simp_all add: reconcile_def)
    with U S1 Some show ?thesis by (intro upsert_error [of e ps1]) simp_all
  next
    case None
    obtain e2 ps2 st2 where
      D: "for_in (deleteType resolvers a) ex (ps1, st1) = (e2, ps2, st2)"
      by (metis prod_cases3)
    from D S1 have S2: "?S (ps2, st2)"
      by (rule for_in_invariant) (rule spawned_deleteType [OF _ _ delete_not_dsd])
    show ?thesis
    proof (cases e2)
      case (Some e)
      with R U D None have "st' = st2" "out = Threw e" by (simp_all add: reconcile_def)
      with U D S2 None Some show ?thesis by (intro delete_error [of ps1 st1 e ps2]) simp_all
    next
      case None2: None
      obtain w st3 sched3 where
        A: "promise_all env ps2 st2 sched = (w, st3, sched3)"
        by (metis prod_cases3)
      from A S2 have S3: "?S (ps2, st3)"
        by (rule spawned_promise_all)
      show ?thesis
      proof (cases w)
        case (Rejected e)
        with R U D None None2 A have *: "st' = st3" "out = Threw e" "sched' = sched3"
          by (simp_all add: reconcile_def)
        from promise_all_result [OF A] Rejected have "rejection (heap st3) ps2 = Some e"
          by simp
        with S3 have "task_error e" by (rule spawned_rejected)
        with * U None A S3 Rejected show ?thesis
          by (intro unresolved [of ps1 st1 ps2 st2 w]) simp_all
      next
        case Starved
        with R U D None None2 A have *: "st' = st3" "out = Pending" "sched' = sched3"
          by (simp_all add: reconcile_def)
        with U None A S3 Starved show ?thesis
          by (intro unresolved [of ps1 st1 ps2 st2 w]) simp_all
      next
        case (Resolved vs)
        with promise_all_result [OF A] have "fulfilment (heap st3) ps2 = Some vs"
          by simp
        with S3 have rf3: "resolved_from h0 st3"
          by (rule spawned_resolved)
        from S3 have c3: "consistent st3" and le3: "h0 \<le> length (heap st3)"
          by (auto simp: spawned_def)
        obtain e4 dsn where G: "getDataSourcesNames resolvers = (e4, dsn)"
          by (cases "getDataSourcesNames resolvers")
        show ?thesis
        proof (cases e4)
          case (Some e)
          with R U D None None2 A Resolved G have "st' = st3" "out = Threw e"
            by (simp_all add: reconcile_def)
          with U None G Some S3 show ?thesis
            by (intro names_error [of ps1 st1 e dsn ps2]) simp_all
        next
          case None4: None
          let ?S' = "spawned h0 (length (heap st3)) data_source_delete (trace st3)"
          obtain ps4 st4 where
            F: "fold (removeOutdated a dsn) names ([], st3) = (ps4, st4)"
            by (cases "fold (removeOutdated a dsn) names ([], st3)")
          obtain w' st5 sched5 where
            B: "promise_all env ps4 st4 sched3 = (w', st5, sched5)"
            by (metis prod_cases3)
          from R U D None None2 A Resolved G None4 F B have st5: "st' = st5"
            and out: "out = (case w' of Resolved vs \<Rightarrow> Returned | Rejected e \<Rightarrow> Threw e | Starved \<Rightarrow> Pending)"
            by (simp_all add: reconcile_def split: awaited.splits)
          have "?S' ([], st3)"
            using c3 rf3 le3 by (rule spawned_init)
          then have "?S' (fold (removeOutdated a dsn) names ([], st3))"
            by (rule spawned_removeOutdated) simp
          with F have "?S' (ps4, st4)" by simp
          with B have S5: "?S' (ps4, st5)" by (rule spawned_promise_all)
          have "(\<exists>e. w' = Rejected e \<and> out = Threw e \<and> task_error e) \<or> (w' = Starved \<and> out = Pending)
                  \<or> (\<exists>vs. w' = Resolved vs \<and> out = Returned)"
          proof (cases w')
            case (Rejected e)
            with promise_all_result [OF B] have "rejection (heap st5) ps4 = Some e"
              by simp
            with S5 have "task_error e" by (rule spawned_rejected)
            with Rejected out show ?thesis by simp
          qed (simp_all add: out)
          with U None S3 rf3 S5 st5 show ?thesis
            by (intro deleting [of ps1 st1 ps2 st3 ps4 w']) simp_all
        qed
      qed
    qed
  qed
qed

lemma attempt_run [consumes 2, case_names invalid snapshot_failed reconciled]:
  assumes A: "attempt env config apiId' roleName' resolvers st sched = (out, st', sched')"
      and c: "consistent st"
  obtains
    (invalid) e where
      "\<not> (truthy apiId' \<and> truthy roleName' \<and> typeof resolvers = ''object'')"
      "st' = st" "sched' = sched" "out = Threw e" "validation_error e"
  | (snapshot_failed) w ps where
      "truthy apiId' \<and> truthy roleName' \<and> typeof resolvers = ''object''"
      "snapshot env config (the apiId') st sched = (w, st', sched')"
      "spawned (length (heap st)) (length (heap st)) listing (trace st) (ps, st')"
      "\<forall>e. out = Threw e \<longrightarrow> \<not> validation_error e"
  | (reconciled) st1 sched1 q m names ps where
      "truthy apiId' \<and> truthy roleName' \<and> typeof resolvers = ''object''"
      "snapshot env config (the apiId') st sched
         = (Resolved [VResolvers q, VResolvers m, VNames names], st1, sched1)"
      "spawned (length (heap st)) (length (heap st)) listing (trace st) (ps, st1)"
      "resolved_from (length (heap st)) st1"
      "reconcile env config (the apiId') (the roleName') resolvers
         [(''Query'', q), (''Mutation'', m)] names st1 sched1 = (out, st', sched')"
proof (cases "truthy apiId' \<and> truthy roleName' \<and> typeof resolvers = ''object''")
  case False
  with A have "st' = st \<and> sched' = sched \<and> (\<exists>e. out = Threw e \<and> validation_error e)"
    by (auto simp: attempt_def split: if_splits)
  with False show ?thesis by (auto intro: invalid)
next
  case True
  obtain w st1 sched1 where S: "snapshot env config (the apiId') st sched = (w, st1, sched1)"
    by (metis prod_cases3)
  from snapshot_spawned [OF S c] obtain ps where
    sp: "spawned (length (heap st)) (length (heap st)) listing (trace st) (ps, st1)" and
    res: "case w of Resolved vs \<Rightarrow> fulfilment (heap st1) ps = Some vs
          | Rejected e \<Rightarrow> rejection (heap st1) ps = Some e | Starved \<Rightarrow> True"
    by blast
  from A True S have "(\<exists>q m ns. w = Resolved [VResolvers q, VResolvers m, VNames ns] \<and>
       reconcile env config (the apiId') (the roleName') resolvers
         [(''Query'', q), (''Mutation'', m)] ns st1 sched1 = (out, st', sched'))
     \<or> (st' = st1 \<and> sched' = sched1
         \<and> (out = Pending \<or> (\<exists>e. w = Rejected e \<and> out = Threw e) \<or> (\<exists>m. out = Threw (TypeError m))))"
    by (auto simp: attempt_def split: awaited.splits list.splits val.splits)
  then show ?thesis
  proof
    assume "\<exists>q m ns. w = Resolved [VResolvers q, VResolvers m, VNames ns] \<and>
       reconcile env config (the apiId') (the roleName') resolvers
         [(''Query'', q), (''Mutation'', m)] ns st1 sched1 = (out, st', sched')"
    then obtain q m ns where w: "w = Resolved [VResolvers q, VResolvers m, VNames ns]"
      and R: "reconcile env config (the apiId') (the roleName') resolvers
         [(''Query'', q), (''Mutation'', m)] ns st1 sched1 = (out, st', sched')"
      by blast
    from res w have "fulfilment (heap st1) ps = Some [VResolvers q, VResolvers m, VNames ns]"
      by simp
    with sp have "resolved_from (length (heap st)) st1" by (rule spawned_resolved)
    with True S w sp R show ?thesis by (intro reconciled [of q m ns st1 sched1 ps]) simp_all
  next
    assume *: "st' = st1 \<and> sched' = sched1
         \<and> (out = Pending \<or> (\<exists>e. w = Rejected e \<and> out = Threw e) \<or> (\<exists>m. out = Threw (TypeError m)))"
    have "\<forall>e. out = Threw e \<longrightarrow> \<not> validation_error e"
    proof (intro allI impI)
      fix e assume e: "out = Threw e"
      show "\<not> validation_error e"
      proof (cases "w = Rejected e")
        case True
        with res have "rejection (heap st1) ps = Some e" by simp
        with sp have "task_error e" by (rule spawned_rejected)
        then show ?thesis by (rule task_error_not_validation)
      next
        case False
        with * e obtain m where "e = TypeError m" by auto
        then show ?thesis by simp
      qed
    qed
    with True S sp * show ?thesis by (intro snapshot_failed [of w ps]) simp_all
  qed
qed


lemma attempt_threw:
  assumes "attempt env config apiId' roleName' resolvers st sched = (Threw e, st', sched')"
      and "consistent st"
  shows "(validation_error e \<and> st' = st \<and> \<not> shape_ok config apiId' roleName' resolvers)
       \<or> (\<not> validation_error e \<and> (\<exists>w. snapshot env config (the apiId') st sched = (w, st', sched')))
       \<or> (validation_error e \<and> \<not> shape_ok config apiId' roleName' resolvers \<and>
            (\<exists>w st1 sched1 E. snapshot env config (the apiId') st sched = (w, st1, sched1)
                \<and> trace st' = trace st1 @ E \<and> quiet_trace E))
       \<or> (\<not> validation_error e \<and> shape_ok config apiId' roleName' resolvers)"
  using assms
proof (cases rule: attempt_run)
  case (invalid e')
  then show ?thesis by (auto simp: shape_ok_def)
next
  case (snapshot_failed w ps)
  then show ?thesis by auto
next
  case (reconciled st1 sched1 q m names ps)
  let ?a = "the apiId'" and ?r = "the roleName'"
  from reconciled(3) have c1: "consistent st1" and le: "length (heap st) \<le> length (heap st1)"
    by (simp_all add: spawned_def)
  have ok: "shape_ok config apiId' roleName' resolvers"
    if "for_in (upsertType config ?a ?r) (entries resolvers) ([], st1) = (None, ps1, st2)"
    for ps1 st2
    unfolding shape_ok_def
  proof (intro conjI allI)
    fix s
    from that upsertType_shape [of config ?a ?r "entries resolvers" s "([], st1)"]
    show "fst (for_in (upsertType config ?a ?r) (entries resolvers) s) = None"
      by simp
  qed (use reconciled(1) in simp_all)
  from reconciled(5) c1 reconciled(4) le show ?thesis
  proof (cases rule: reconcile_run)
    case (upsert_error e' ps')
    then have e': "e' = e" by simp
    from upsert_loop_quiet [OF upsert_error(1)] obtain E where
      E: "trace st' = trace st1 @ E" "quiet_trace E" by blast
    have "\<not> shape_ok config apiId' roleName' resolvers"
    proof
      assume "shape_ok config apiId' roleName' resolvers"
      then have "fst (for_in (upsertType config ?a ?r) (entries resolvers) ([], st1)) = None"
        by (simp add: shape_ok_def)
      with upsert_error(1) show False by simp
    qed
    show ?thesis
    proof (cases "validation_error e")
      case True
      with E reconciled(2) \<open>\<not> shape_ok config apiId' roleName' resolvers\<close> show ?thesis by blast
    next
      case False
      from upsert_error(1) e' obtain x s0 s1 where
        "upsertType config ?a ?r x s0 = (Some e, s1)"
        by (auto elim: for_in_error)
      then have "validation_error e"
      proof (cases x)
        case (Pair ty v)
        assume u: "upsertType config ?a ?r x s0 = (Some e, s1)"
        show ?thesis
        proof (cases "typeof v = ''object''")
          case False
          with u Pair show ?thesis by (auto simp: upsertType_def)
        next
          case True
          with u Pair have "for_in (upsertField config ?a ?r ty) (entries v) s0 = (Some e, s1)"
            by (simp add: upsertType_def)
          then obtain y s2 s3 where "upsertField config ?a ?r ty y s2 = (Some e, s3)"
            by (rule for_in_error)
          then show ?thesis
            by (cases y) (auto simp: upsertField_def split: if_splits)
        qed
      qed
      with False show ?thesis by simp
    qed
  next
    case (delete_error e' ps1 st2 ps')
    from deleteType_error [OF delete_error(2)] delete_error(3) have "\<not> validation_error e"
      by simp
    with ok [OF delete_error(1)] show ?thesis by simp
  next
    case (unresolved ps1 st2 ps' st3 w)
    then have "\<not> validation_error e" by (auto dest: task_error_not_validation)
    with ok [OF unresolved(1)] show ?thesis by simp
  next
    case (names_error ps1 st2 ps' e' dsn)
    from getDataSourcesNames_error [OF names_error(2)] names_error(3) have "\<not> validation_error e"
      by simp
    with ok [OF names_error(1)] show ?thesis by simp
  next
    case (deleting ps1 st2 ps' st3 ps4 w)
    then have "\<not> validation_error e" by (auto dest: task_error_not_validation)
    with ok [OF deleting(1)] show ?thesis by simp
  qed
qed


lemma quiet_trace_append [simp]: "quiet_trace (xs @ ys) \<longleftrightarrow> quiet_trace xs \<and> quiet_trace ys"
  by (auto simp: quiet_trace_def)





lemma promise_all_extends:
  assumes "promise_all env ps st sched = (w, st', sched')"
  shows "\<exists>E. trace st' = trace st @ E"
proof -
  have "\<exists>E. trace (settle env p s) = trace st @ E" if "\<exists>E. trace s = trace st @ E" for p s
    using that by (cases "heap s ! p") (auto simp: settle_def)
  then have "\<exists>E. trace (tick env c s) = trace st @ E" if "\<exists>E. trace s = trace st @ E" for c s
    using that by (intro tick_invariant [where I = "\<lambda>s. \<exists>E. trace s = trace st @ E"]) auto
  with assms show ?thesis
    by (elim promise_all_invariant [where I = "\<lambda>s. \<exists>E. trace s = trace st @ E"]) auto
qed

lemma promise_all_none [simp]: "promise_all env [] st sched = (Resolved [], st, sched)"
  by (cases sched) simp_all

lemma removeOutdated_all:
  "\<exists>ps' st'. fold (removeOutdated a []) names (ps, st) = (ps', st')
      \<and> trace st' = trace st @ deletes_from a (length (heap st)) names"
proof (induction names arbitrary: ps st)
  case Nil
  then show ?case by (simp add: deletes_from_def)
next
  case (Cons n names)
  let ?st = "start (map_task VResponse (call (DeleteDataSource a n))) st"
  from Cons [of "ps @ [length (heap st)]" ?st] show ?case
    by (auto simp: removeOutdated_def push_def deletes_from_def call_def)
qed

lemma getDataSourcesNames_Null [simp]: "getDataSourcesNames Null = (None, [])"
  by (simp add: getDataSourcesNames_def)

lemma delete_loop_Null:
  "for_in (deleteField Null a ty) fs s
     = (case fs of [] \<Rightarrow> (None, s)
        | (f, x) # rest \<Rightarrow>
            (Some (TypeError (''Cannot read properties of null (reading '' @ [CHR 0x27] @ ty @ [CHR 0x27] @ '')'')), s))"
  by (cases fs) (auto simp: deleteField_def notDesired_def)

lemma reconcile_Null_empty:
  assumes "reconcile env config a r Null [(''Query'', []), (''Mutation'', [])] names st sched = (out, st', sched')"
  shows "\<exists>E. trace st' = trace st @ deletes_from a (length (heap st)) names @ E"
proof -
  from removeOutdated_all [of a names "[]" st] obtain ps4 st4 where
    F: "fold (removeOutdated a []) names ([], st) = (ps4, st4)"
       "trace st4 = trace st @ deletes_from a (length (heap st)) names"
    by blast
  obtain w st5 sched5 where B: "promise_all env ps4 st4 sched = (w, st5, sched5)"
    by (metis prod_cases3)
  from assms F B have "st' = st5"
    by (simp add: reconcile_def deleteType_def split: awaited.splits)
  with promise_all_extends [OF B] F(2) show ?thesis by auto
qed

lemma reconcile_Null_nonempty:
  assumes "q \<noteq> [] \<or> m \<noteq> []"
  shows "\<exists>msg. reconcile env config a r Null [(''Query'', q), (''Mutation'', m)] names st sched
           = (Threw (TypeError msg), st, sched)"
  using assms
  by (cases q; cases m) (auto simp: reconcile_def deleteType_def delete_loop_Null)

lemma shape_ok_Null: "truthy apiId' \<Longrightarrow> truthy roleName' \<Longrightarrow> shape_ok config apiId' roleName' Null"
  by (simp add: shape_ok_def)

lemma promise_all_starved:
  assumes "promise_all env ps st sched = (Starved, st', sched')"
  shows "rejection (heap st') ps = None"
  using assms
proof (induction sched arbitrary: st)
  case Nil
  then show ?case by (auto split: option.splits)
next
  case (Cons c sched)
  then show ?case by (auto split: option.splits)
qed

lemma rejection_None: "rejection h ps = None \<Longrightarrow> p \<in> set ps \<Longrightarrow> h ! p \<noteq> Done (Inl e)"
  by (induction ps) (auto split: task.splits sum.splits)

lemma spawned_member:
  assumes "spawned h0 h1 P T0 (ps, st)" "h1 \<le> p" "p < length (heap st)"
  shows "p \<in> set ps"
  using assms by (simp add: spawned_def)

lemma spawned_no_delete:
  assumes "spawned h0 h1 (\<lambda>q. \<not> data_source_delete q) T0 (ps, st)"
      and "\<forall>ev \<in> set T0. h0 \<le> pid ev \<longrightarrow> \<not> data_source_delete (req ev)"
  shows "\<forall>ev \<in> set (trace st). h0 \<le> pid ev \<longrightarrow> \<not> data_source_delete (req ev)"
  using spawned_trace [OF assms(1)] assms(2) by auto

lemma rejected_upsert_aborts:
  assumes A: "attempt env config apiId' roleName' resolvers st sched = (out, st', sched')"
      and c: "consistent st"
      and p: "length (heap st) \<le> p" "p < length (heap st')"
      and q: "Issue p q \<in> set (trace st')" "upsert_call q"
      and e: "heap st' ! p = Done (Inl e)"
  shows "(\<exists>e'. out = Threw e')
       \<and> (\<forall>ev \<in> set (trace st'). length (heap st) \<le> pid ev \<longrightarrow> \<not> data_source_delete (req ev))"
proof -
  let ?h0 = "length (heap st)"
  from c have old: "\<forall>ev \<in> set (trace st). pid ev < ?h0"
    by (simp add: consistent_def)
  from A c show ?thesis
  proof (cases rule: attempt_run)
    case (invalid e')
    with p show ?thesis by simp
  next
    case (snapshot_failed w ps)
    from spawned_trace [OF snapshot_failed(3)] obtain E where
      E: "trace st' = trace st @ E" "\<forall>ev \<in> set E. ?h0 \<le> pid ev \<longrightarrow> listing (req ev)"
      by auto
    from q(1) E(1) have "Issue p q \<in> set (trace st) \<or> Issue p q \<in> set E" by simp
    then have False
    proof
      assume "Issue p q \<in> set (trace st)"
      with old p(1) show False by fastforce
    next
      assume "Issue p q \<in> set E"
      with E(2) p(1) have "listing q" by fastforce
      with q(2) show False by (cases q) auto
    qed
    then show ?thesis ..
  next
    case (reconciled st1 sched1 q' m names ps)
    from reconciled(3) have c1: "consistent st1" and le1: "?h0 \<le> length (heap st1)"
      by (simp_all add: spawned_def)
    from spawned_trace [OF reconciled(3)] obtain E1 where
      E1: "trace st1 = trace st @ E1" "\<forall>ev \<in> set E1. ?h0 \<le> pid ev \<longrightarrow> listing (req ev)"
      by auto
    have nd1: "\<forall>ev \<in> set (trace st1). ?h0 \<le> pid ev \<longrightarrow> \<not> data_source_delete (req ev)"
      using E1 old by (fastforce dest: listing_not_dsd)
    have late: "length (heap st1) \<le> p"
      if "spawned ?h0 (length (heap st1)) (\<lambda>q. \<not> data_source_delete q) (trace st1) (ps', st')" for ps'
    proof -
      from spawned_trace [OF that] obtain E2 where
        E2: "trace st' = trace st1 @ E2"
          "\<forall>ev \<in> set E2. ?h0 \<le> pid ev \<longrightarrow> length (heap st1) \<le> pid ev"
        by auto
      from q(1) E2(1) E1(1) have "Issue p q \<in> set (trace st) \<or> Issue p q \<in> set E1 \<or> Issue p q \<in> set E2"
        by auto
      then show ?thesis
      proof (elim disjE)
        assume "Issue p q \<in> set (trace st)"
        with old p(1) show ?thesis by fastforce
      next
        assume "Issue p q \<in> set E1"
        with E1(2) p(1) have "listing q" by fastforce
        with q(2) show ?thesis by (cases q) auto
      next
        assume "Issue p q \<in> set E2"
        with E2(2) p(1) show ?thesis by fastforce
      qed
    qed
    from reconciled(5) c1 reconciled(4) le1 show ?thesis
    proof (cases rule: reconcile_run)
      case (upsert_error e' ps')
      from spawned_no_delete [OF upsert_error(3) nd1] upsert_error(2) show ?thesis by blast
    next
      case (delete_error e' ps1 st2 ps')
      from spawned_no_delete [OF delete_error(4) nd1] delete_error(3) show ?thesis by blast
    next
      case (unresolved ps1 st2 ps' st3 w)
      from unresolved(3) show ?thesis
      proof
        assume "\<exists>e. w = Rejected e \<and> out = Threw e \<and> task_error e"
        with spawned_no_delete [OF unresolved(4) nd1] show ?thesis by blast
      next
        assume w: "w = Starved \<and> out = Pending"
        with unresolved(2) have "rejection (heap st') ps' = None"
          by (auto dest: promise_all_starved)
        moreover have "p \<in> set ps'"
          using unresolved(4) late [OF unresolved(4)] p(2) by (rule spawned_member)
        ultimately have "heap st' ! p \<noteq> Done (Inl e)" by (rule rejection_None)
        with e show ?thesis by simp
      qed
    next
      case (names_error ps1 st2 ps' e' dsn)
      from spawned_no_delete [OF names_error(4) nd1] names_error(3) show ?thesis by blast
    next
      case (deleting ps1 st2 ps' st3 ps4 w)
      from spawned_trace [OF deleting(2)] obtain E2 where
        E2: "trace st3 = trace st1 @ E2"
          "\<forall>ev \<in> set E2. pid ev < length (heap st3) \<and> (?h0 \<le> pid ev \<longrightarrow> length (heap st1) \<le> pid ev)"
        by auto
      from spawned_trace [OF deleting(4)] obtain E3 where
        E3: "trace st' = trace st3 @ E3"
          "\<forall>ev \<in> set E3. ?h0 \<le> pid ev \<longrightarrow> length (heap st3) \<le> pid ev \<and> data_source_delete (req ev)"
        by auto
      have "p < length (heap st3)"
      proof -
        from q(1) E3(1) have "Issue p q \<in> set (trace st3) \<or> Issue p q \<in> set E3" by auto
        then show ?thesis
        proof
          assume "Issue p q \<in> set (trace st3)"
          moreover from deleting(2) have "consistent st3" by (simp add: spawned_def)
          ultimately show ?thesis by (fastforce simp: consistent_def)
        next
          assume "Issue p q \<in> set E3"
          with E3(2) p(1) have "data_source_delete q" by fastforce
          with q(2) show ?thesis by (auto dest: upsert_not_dsd)
        qed
      qed
      with deleting(4) p have "\<exists>v. heap st' ! p = Done (Inr v)"
        by (auto simp: spawned_def phase_def)
      with e show ?thesis by simp
    qed
  qed
qed

lemma feed_bind_error:
  "feed t rs = (qs, Done (Inl e)) \<Longrightarrow> feed (task_bind t f) rs = (qs, Done (Inl e))"
proof (induction t rs arbitrary: qs rule: feed.induct)
  case (1 t)
  then show ?case by (cases t) auto
next
  case (2 t r rs)
  then show ?case by (cases t) (auto split: prod.splits)
qed

lemma feed_map_error:
  "feed t rs = (qs, Done (Inl e)) \<Longrightarrow> feed (map_task f t) rs = (qs, Done (Inl e))"
proof (induction t rs arbitrary: qs rule: feed.induct)
  case (1 t)
  then show ?case by (cases t) auto
next
  case (2 t r rs)
  then show ?case by (cases t) (auto split: prod.splits)
qed

lemma provisioning_reached:
  assumes "truthy (lambda p) \<or> truthy (table p) \<or> authorizationConfig p \<noteq> None \<or> truthy (endpoint p)
           \<or> (truthy (relationalDatabaseSourceType p) \<and> (truthy (name p) \<or> database p \<noteq> None))"
  shows "\<exists>dsp. ds_apiId dsp = apiId p \<and> ds_serviceRoleArn dsp = ra \<and>
           (\<forall>rs. feed (deployAppSyncDataSource config p) (found p ra la @ rs)
                  = (lookups p @ fst (feed (provisionDataSource dsp) rs),
                     snd (feed (provisionDataSource dsp) rs)))"
proof -
  have lam: "truthy (lambda p) \<Longrightarrow> \<exists>l. lambda p = Some l \<and> l \<noteq> []"
    by (cases "lambda p") (auto simp: truthy_def)
  have tab: "truthy (table p) \<Longrightarrow> \<exists>l. table p = Some l \<and> l \<noteq> []"
    by (cases "table p") (auto simp: truthy_def)
  have nam: "truthy (name p) \<Longrightarrow> \<exists>l. name p = Some l \<and> l \<noteq> []"
    by (cases "name p") (auto simp: truthy_def)
  have go: "feed (Await q k) (r # rs) = (q # fst (feed (k r) rs), snd (feed (k r) rs))" for q r rs
    and k :: "aws_response \<Rightarrow> (string \<times> string) task"
    by (simp split: prod.splits)
  consider (l) "truthy (lambda p)"
    | (t) "\<not> truthy (lambda p)" "truthy (table p)"
    | (h) "\<not> truthy (lambda p)" "\<not> truthy (table p)" "authorizationConfig p \<noteq> None"
    | (e) "\<not> truthy (lambda p)" "\<not> truthy (table p)" "authorizationConfig p = None" "truthy (endpoint p)"
    | (r) "\<not> truthy (lambda p)" "\<not> truthy (table p)" "authorizationConfig p = None" "\<not> truthy (endpoint p)"
          "truthy (relationalDatabaseSourceType p)" "truthy (name p) \<or> database p \<noteq> None"
    using assms by blast
  then show ?thesis
  proof cases
    case l
    from lam [OF l] obtain x where "lambda p = Some x" "x \<noteq> []" by blast
    with l show ?thesis
      by (intro exI [of _ "\<lparr>ds_apiId = apiId p, ds_serviceRoleArn = ra, ds_name = Some (filter alphanumeric x),
          ds_type = AWS_LAMBDA, ds_config = LambdaConfig la\<rparr>"])
         (simp add: deployAppSyncDataSource_def getRoleArn_def getLambdaArn_def dataSourceParams_def
            getDataSourceName_def task_defs found_def lookups_def go del: feed.simps)
  next
    case t
    from tab [OF t(2)] obtain x where "table p = Some x" "x \<noteq> []" by blast
    with t show ?thesis
      by (intro exI [of _ "\<lparr>ds_apiId = apiId p, ds_serviceRoleArn = ra, ds_name = Some (filter alphanumeric x),
          ds_type = AMAZON_DYNAMODB, ds_config = DynamodbConfig (js_or (tableRegion p) (region config)) x (deltaSyncConfig p)\<rparr>"])
         (simp add: deployAppSyncDataSource_def getRoleArn_def getLambdaArn_def dataSourceParams_def
            getDataSourceName_def task_defs found_def lookups_def go del: feed.simps)
  next
    case h
    then show ?thesis
      by (intro exI [of _ "\<lparr>ds_apiId = apiId p, ds_serviceRoleArn = ra, ds_name = name p,
          ds_type = HTTP, ds_config = HttpConfig (endpoint p) (authorization p) (signingRegion p) (signingServiceName p)\<rparr>"])
         (simp add: deployAppSyncDataSource_def getRoleArn_def getLambdaArn_def dataSourceParams_def
            getDataSourceName_def task_defs found_def lookups_def go del: feed.simps)
  next
    case e
    then show ?thesis
      by (intro exI [of _ "\<lparr>ds_apiId = apiId p, ds_serviceRoleArn = ra, ds_name = name p,
          ds_type = AMAZON_ELASTICSEARCH, ds_config = ElasticsearchConfig (js_or (endpointRegion p) (region config)) (endpoint p)\<rparr>"])
         (simp add: deployAppSyncDataSource_def getRoleArn_def getLambdaArn_def dataSourceParams_def
            getDataSourceName_def task_defs found_def lookups_def go del: feed.simps)
  next
    case r
    show ?thesis
    proof (cases "truthy (name p)")
      case True
      from nam [OF True] obtain x where "name p = Some x" "x \<noteq> []" by blast
      with r True show ?thesis
        by (intro exI [of _ "\<lparr>ds_apiId = apiId p, ds_serviceRoleArn = ra, ds_name = Some x,
          ds_type = RELATIONAL_DATABASE, ds_config = RelationalDatabaseConfig (the (relationalDatabaseSourceType p))
            (js_or (endpointRegion p) (region config)) (awsSecretStoreArn p) (database p)
            (dbClusterIdentifier p) (schema p)\<rparr>"])
           (simp add: deployAppSyncDataSource_def getRoleArn_def getLambdaArn_def dataSourceParams_def
            getDataSourceName_def task_defs found_def lookups_def go del: feed.simps)
    next
      case False
      with r(6) obtain d where "database p = Some d" by auto
      with r False show ?thesis
        by (intro exI [of _ "\<lparr>ds_apiId = apiId p, ds_serviceRoleArn = ra, ds_name = Some (filter alphanumeric d),
          ds_type = RELATIONAL_DATABASE, ds_config = RelationalDatabaseConfig (the (relationalDatabaseSourceType p))
            (js_or (endpointRegion p) (region config)) (awsSecretStoreArn p) (database p)
            (dbClusterIdentifier p) (schema p)\<rparr>"])
           (simp add: deployAppSyncDataSource_def getRoleArn_def getLambdaArn_def dataSourceParams_def
            getDataSourceName_def task_defs found_def lookups_def go del: feed.simps)
    qed
  qed
qed

lemma provision_cases:
  "feed (provisionDataSource dsp) [DataSourceRes arn n] = ([UpdateDataSource dsp], Done (Inr (arn, n)))"
  "c \<noteq> ''NotFoundException'' \<Longrightarrow>
     feed (provisionDataSource dsp) [Failure c m] = ([UpdateDataSource dsp], Done (Inl (AwsError c m)))"
  "feed (provisionDataSource dsp) [Failure ''NotFoundException'' m, DataSourceRes arn n]
     = ([UpdateDataSource dsp, CreateDataSource dsp], Done (Inr (arn, n)))"
  "\<not> name_taken c' m' \<Longrightarrow>
     feed (provisionDataSource dsp) [Failure ''NotFoundException'' m, Failure c' m']
       = ([UpdateDataSource dsp, CreateDataSource dsp], Done (Inl (AwsError c' m')))"
  "name_taken c' m' \<Longrightarrow>
     feed (provisionDataSource dsp) [Failure ''NotFoundException'' m, Failure c' m', DataSourceRes arn n]
       = ([UpdateDataSource dsp, CreateDataSource dsp, UpdateDataSource dsp], Done (Inr (arn, n)))"
  "name_taken c' m' \<Longrightarrow>
     feed (provisionDataSource dsp) [Failure ''NotFoundException'' m, Failure c' m', Failure c'' m'']
       = ([UpdateDataSource dsp, CreateDataSource dsp, UpdateDataSource dsp], Done (Inl (AwsError c'' m'')))"
  by (auto simp: provisionDataSource_def dataSourceResult_def task_defs name_taken_def)






section \<open>Ordering of the phases\<close>

text \<open>
  C8. In every run, all resolver delete calls have settled before any data-source delete
  call is issued. A run is one execution of the body of \<^verbatim>\<open>deployAppSyncResolvers\<close>
  (\<open>attempt\<close>), started in any consistent state; its promises are those from
  \<open>length (heap st)\<close> on. Whenever such a promise issues \<^verbatim>\<open>deleteDataSource\<close>, no promise
  of the run that issued a \<^verbatim>\<open>deleteResolver\<close> before has a call in flight, and all that
  the promises of the run do afterwards is issue and settle \<^verbatim>\<open>deleteDataSource\<close> calls: no
  \<^verbatim>\<open>deleteResolver\<close> is issued or settles after it. This holds whatever the remote
  service answers and in whatever order the calls settle.
\<close>

theorem resolver_deletes_settle_first:
  assumes "attempt env config apiId' roleName' resolvers st sched = (out, st', sched')"
      and "consistent st"
      and "trace st' = pre @ Issue p (DeleteDataSource a n) # post"
      and "length (heap st) \<le> p"
  shows "(\<forall>p' a' f ty. length (heap st) \<le> p' \<and> Issue p' (DeleteResolver a' f ty) \<in> set pre
            \<longrightarrow> \<not> outstanding pre p')
       \<and> (\<forall>ev \<in> set post. length (heap st) \<le> pid ev \<longrightarrow> data_source_delete (req ev))"
proof (intro conjI allI impI)
  fix p' a' f ty
  assume "length (heap st) \<le> p' \<and> Issue p' (DeleteResolver a' f ty) \<in> set pre"
  with assms show "\<not> outstanding pre p'"
    by (intro settled_when_deleting [OF assms, of p' "DeleteResolver a' f ty"]) simp_all
qed (rule only_deletes_follow [OF assms])

theorem resolver_deletes_settle_first_witness:
  "trace (fst (snd run1)) ! 16 = Issue 5 (DeleteDataSource ''api'' ''old'')
   \<and> Issue 4 (DeleteResolver ''api'' ''deleteUser'' ''Mutation'') \<in> set (take 16 (trace (fst (snd run1))))
   \<and> \<not> outstanding (take 16 (trace (fst (snd run1)))) 4
   \<and> trace (fst (snd run1)) ! 17 \<in> set (drop 17 (trace (fst (snd run1))))
   \<and> data_source_delete (req (trace (fst (snd run1)) ! 17))"
proof -
  let ?tr = "trace (fst (snd run1))"
  have len: "length ?tr = 18"
    by code_simp
  have at: "?tr ! 16 = Issue 5 (DeleteDataSource ''api'' ''old'')"
    by code_simp
  have before: "Issue 4 (DeleteResolver ''api'' ''deleteUser'' ''Mutation'') \<in> set (take 16 ?tr)"
    by code_simp
  have after: "?tr ! 17 \<in> set (drop (Suc 16) ?tr)"
    by code_simp
  have late: "0 \<le> pid (?tr ! 17)"
    by simp
  have "?tr = take 16 ?tr @ ?tr ! 16 # drop (Suc 16) ?tr"
    by (rule id_take_nth_drop) (simp add: len)
  with at have split: "?tr = take 16 ?tr @ Issue 5 (DeleteDataSource ''api'' ''old'') # drop (Suc 16) ?tr"
    by simp
  have run: "attempt remote1 cfg (Some ''api'') (Some ''role'') desired1 init (replicate 9 0)
               = (fst run1, fst (snd run1), snd (snd run1))"
    by (simp add: run1_def)
  have h: "length (heap init) = 0"
    by (simp add: init_def)
  from resolver_deletes_settle_first [OF run consistent_init split] before after
  have "\<not> outstanding (take 16 ?tr) 4 \<and> data_source_delete (req (?tr ! 17))"
    unfolding h by blast
  with at before after show ?thesis by simp
qed

text \<open>
  C3, as amended. The claim says that the upserts have settled before any delete,
  resolver deletes included, is issued. The resolver deletes are pushed on the same
  \<^verbatim>\<open>promises\<close> array as the upserts and awaited with them (lines 300, 313 and 318), so
  they are issued while the upserts are in flight. What holds: whenever a promise of the
  run issues \<^verbatim>\<open>deleteDataSource\<close>, no promise of the run that issued a call of an upsert
  (role or function look-up, update or create of a data source or a resolver) has a call
  in flight, and all that the promises of the run do afterwards is issue and settle
  \<^verbatim>\<open>deleteDataSource\<close> calls: no call of an upsert is issued or settles after it.
\<close>

theorem upserts_settle_before_data_source_deletes:
  assumes "attempt env config apiId' roleName' resolvers st sched = (out, st', sched')"
      and "consistent st"
      and "trace st' = pre @ Issue p (DeleteDataSource a n) # post"
      and "length (heap st) \<le> p"
  shows "(\<forall>p' q. length (heap st) \<le> p' \<and> Issue p' q \<in> set pre \<and> upsert_call q
            \<longrightarrow> \<not> outstanding pre p')
       \<and> (\<forall>ev \<in> set post. length (heap st) \<le> pid ev \<longrightarrow> data_source_delete (req ev))"
proof (intro conjI allI impI)
  fix p' q
  assume "length (heap st) \<le> p' \<and> Issue p' q \<in> set pre \<and> upsert_call q"
  then show "\<not> outstanding pre p'"
    by (intro settled_when_deleting [OF assms, of p' q]) (simp_all add: upsert_not_dsd)
qed (rule only_deletes_follow [OF assms])

theorem upserts_settle_before_data_source_deletes_witness:
  "trace (fst (snd run1)) ! 16 = Issue 5 (DeleteDataSource ''api'' ''old'')
   \<and> Issue 3 (GetRoleArn ''role'') \<in> set (take 16 (trace (fst (snd run1))))
   \<and> \<not> outstanding (take 16 (trace (fst (snd run1)))) 3
   \<and> trace (fst (snd run1)) ! 17 \<in> set (drop 17 (trace (fst (snd run1))))
   \<and> \<not> upsert_call (req (trace (fst (snd run1)) ! 17))"
proof -
  let ?tr = "trace (fst (snd run1))"
  have len: "length ?tr = 18"
    by code_simp
  have at: "?tr ! 16 = Issue 5 (DeleteDataSource ''api'' ''old'')"
    by code_simp
  have before: "Issue 3 (GetRoleArn ''role'') \<in> set (take 16 ?tr)"
    by code_simp
  have after: "?tr ! 17 \<in> set (drop (Suc 16) ?tr)"
    by code_simp
  have up: "upsert_call (GetRoleArn ''role'')"
    by simp
  have "?tr = take 16 ?tr @ ?tr ! 16 # drop (Suc 16) ?tr"
    by (rule id_take_nth_drop) (simp add: len)
  with at have split: "?tr = take 16 ?tr @ Issue 5 (DeleteDataSource ''api'' ''old'') # drop (Suc 16) ?tr"
    by simp
  have run: "attempt remote1 cfg (Some ''api'') (Some ''role'') desired1 init (replicate 9 0)
               = (fst run1, fst (snd run1), snd (snd run1))"
    by (simp add: run1_def)
  have h: "length (heap init) = 0"
    by (simp add: init_def)
  from upserts_settle_before_data_source_deletes [OF run consistent_init split] before after up
  have "\<not> outstanding (take 16 ?tr) 3 \<and> data_source_delete (req (?tr ! 17))"
    unfolding h by blast
  then have "\<not> outstanding (take 16 ?tr) 3 \<and> \<not> upsert_call (req (?tr ! 17))"
    by (auto dest: upsert_not_dsd)
  with at before after show ?thesis by simp
qed

text \<open>C3, the counterexample: in the example run the resolver delete of promise 4 is
  issued at position 7 of the log, when the upsert of promise 3 has only just issued its
  first call, which has not settled.\<close>

theorem resolver_delete_issued_while_upsert_in_flight:
  "trace (fst (snd run1)) ! 6 = Issue 3 (GetRoleArn ''role'')
   \<and> trace (fst (snd run1)) ! 7 = Issue 4 (DeleteResolver ''api'' ''deleteUser'' ''Mutation'')
   \<and> outstanding (take 7 (trace (fst (snd run1)))) 3"
  by code_simp

section \<open>The state fetcher, the provisioner and the classification\<close>

text \<open>
  C9. When the listing of the resolvers of a root type fails with
  \<^verbatim>\<open>NotFoundException\<close>, the empty mapping is returned; any other error of the service
  propagates; and the promises of the state-fetching step issue listing calls only, none
  of which mutates.
\<close>

theorem listResolvers_missing_type:
  "feed (listResolvers config a tn) [Failure ''NotFoundException'' m] = ([ListResolvers a tn], Done (Inr []))
   \<and> (c \<noteq> ''NotFoundException'' \<longrightarrow>
        feed (listResolvers config a tn) [Failure c m] = ([ListResolvers a tn], Done (Inl (AwsError c m))))
   \<and> (snapshot env config a st sched = (w, st', sched') \<longrightarrow> consistent st \<longrightarrow>
        (\<exists>E. trace st' = trace st @ E
           \<and> (\<forall>ev \<in> set E. length (heap st) \<le> pid ev \<longrightarrow> listing (req ev) \<and> \<not> mutating (req ev))))"
proof (intro conjI impI)
  show "feed (listResolvers config a tn) [Failure ''NotFoundException'' m] = ([ListResolvers a tn], Done (Inr []))"
    by (simp add: listResolvers_def task_defs)
  show "feed (listResolvers config a tn) [Failure c m] = ([ListResolvers a tn], Done (Inl (AwsError c m)))"
    if "c \<noteq> ''NotFoundException''"
    using that by (simp add: listResolvers_def task_defs)
  show "\<exists>E. trace st' = trace st @ E
           \<and> (\<forall>ev \<in> set E. length (heap st) \<le> pid ev \<longrightarrow> listing (req ev) \<and> \<not> mutating (req ev))"
    if "snapshot env config a st sched = (w, st', sched')" "consistent st"
  proof -
    from snapshot_spawned [OF that] obtain ps where
      "spawned (length (heap st)) (length (heap st)) listing (trace st) (ps, st')"
      by blast
    from spawned_trace [OF this] obtain E where "trace st' = trace st @ E"
      "\<forall>e \<in> set E. length (heap st) \<le> pid e \<longrightarrow> listing (req e)"
      by auto
    moreover have "listing q \<Longrightarrow> \<not> mutating q" for q
      by (cases q) auto
    ultimately show ?thesis by blast
  qed
qed

theorem listResolvers_missing_type_witness:
  "feed (listResolvers cfg ''api'' ''Mutation'') [Failure ''AccessDeniedException'' ''denied'']
     = ([ListResolvers ''api'' ''Mutation''], Done (Inl (AwsError ''AccessDeniedException'' ''denied'')))
   \<and> (\<exists>E. trace (fst (snd (snapshot remote1 cfg ''api'' init [0, 0, 0]))) = trace init @ E
         \<and> (\<forall>ev \<in> set E. length (heap init) \<le> pid ev \<longrightarrow> listing (req ev) \<and> \<not> mutating (req ev)))"
  using listResolvers_missing_type [of cfg "''api''" "''Mutation''" "''denied''"
      "''AccessDeniedException''" remote1 init "[0, 0, 0]"
      "fst (snapshot remote1 cfg ''api'' init [0, 0, 0])"
      "fst (snd (snapshot remote1 cfg ''api'' init [0, 0, 0]))"
      "snd (snd (snapshot remote1 cfg ''api'' init [0, 0, 0]))"]
    consistent_init
  by simp

text \<open>
  C7. Provisioning first tries the update; on \<^verbatim>\<open>NotFoundException\<close> it creates; when the
  create fails with \<^verbatim>\<open>BadRequestException\<close> and a message that includes "Data source with
  name", it updates once more; every other error of either call, and every error of the
  second update, propagates and aborts the run.

  The theorem is about \<^verbatim>\<open>deployAppSyncDataSource\<close>, for every specification that names a
  data source (so that the classification succeeds), once its look-ups have succeeded:
  there is one payload \<open>dsp\<close>, and the calls that follow the look-ups are exactly the
  update, the create and the second update of \<open>dsp\<close>, as the responses demand. An error
  of \<^verbatim>\<open>deployAppSyncDataSource\<close> is the error of the upsert that called it. And in every
  run, if a promise of the run that issued a call of an upsert has rejected, the run has
  thrown, and no promise of the run has issued a \<^verbatim>\<open>deleteDataSource\<close>.
\<close>

theorem provision_update_create_update:
  assumes "truthy (lambda p) \<or> truthy (table p) \<or> authorizationConfig p \<noteq> None \<or> truthy (endpoint p)
           \<or> (truthy (relationalDatabaseSourceType p) \<and> (truthy (name p) \<or> database p \<noteq> None))"
      and "attempt env config' apiId' roleName' resolvers st sched = (out, st', sched')"
      and "consistent st"
  shows "(\<exists>dsp. ds_apiId dsp = apiId p \<and> ds_serviceRoleArn dsp = ra
          \<and> (\<forall>arn n.
               feed (deployAppSyncDataSource config p) (found p ra la @ [DataSourceRes arn n])
                 = (lookups p @ [UpdateDataSource dsp], Done (Inr (arn, n))))
          \<and> (\<forall>c m. c \<noteq> ''NotFoundException'' \<longrightarrow>
               feed (deployAppSyncDataSource config p) (found p ra la @ [Failure c m])
                 = (lookups p @ [UpdateDataSource dsp], Done (Inl (AwsError c m))))
          \<and> (\<forall>m arn n.
               feed (deployAppSyncDataSource config p)
                   (found p ra la @ [Failure ''NotFoundException'' m, DataSourceRes arn n])
                 = (lookups p @ [UpdateDataSource dsp, CreateDataSource dsp], Done (Inr (arn, n))))
          \<and> (\<forall>m c' m'. \<not> name_taken c' m' \<longrightarrow>
               feed (deployAppSyncDataSource config p)
                   (found p ra la @ [Failure ''NotFoundException'' m, Failure c' m'])
                 = (lookups p @ [UpdateDataSource dsp, CreateDataSource dsp], Done (Inl (AwsError c' m'))))
          \<and> (\<forall>m c' m' arn n. name_taken c' m' \<longrightarrow>
               feed (deployAppSyncDataSource config p)
                   (found p ra la @ [Failure ''NotFoundException'' m, Failure c' m', DataSourceRes arn n])
                 = (lookups p @ [UpdateDataSource dsp, CreateDataSource dsp, UpdateDataSource dsp],
                    Done (Inr (arn, n))))
          \<and> (\<forall>m c' m' c'' m''. name_taken c' m' \<longrightarrow>
               feed (deployAppSyncDataSource config p)
                   (found p ra la @ [Failure ''NotFoundException'' m, Failure c' m', Failure c'' m''])
                 = (lookups p @ [UpdateDataSource dsp, CreateDataSource dsp, UpdateDataSource dsp],
                    Done (Inl (AwsError c'' m'')))))
       \<and> (\<forall>rs qs e. feed (deployAppSyncDataSource config p) rs = (qs, Done (Inl e)) \<longrightarrow>
            feed (map_task VResponse (deployAppSyncResolver config p)) rs = (qs, Done (Inl e)))
       \<and> (\<forall>u q e. length (heap st) \<le> u \<and> u < length (heap st') \<and> Issue u q \<in> set (trace st')
                   \<and> upsert_call q \<and> heap st' ! u = Done (Inl e) \<longrightarrow>
            (\<exists>e'. out = Threw e')
            \<and> (\<forall>ev \<in> set (trace st'). length (heap st) \<le> pid ev \<longrightarrow> \<not> data_source_delete (req ev)))"
proof (intro conjI)
  from provisioning_reached [OF assms(1), of ra config la] obtain dsp where
    dsp: "ds_apiId dsp = apiId p" "ds_serviceRoleArn dsp = ra"
      "\<And>rs. feed (deployAppSyncDataSource config p) (found p ra la @ rs)
                  = (lookups p @ fst (feed (provisionDataSource dsp) rs),
                     snd (feed (provisionDataSource dsp) rs))"
    by blast
  show "\<exists>dsp. ds_apiId dsp = apiId p \<and> ds_serviceRoleArn dsp = ra
          \<and> (\<forall>arn n.
               feed (deployAppSyncDataSource config p) (found p ra la @ [DataSourceRes arn n])
                 = (lookups p @ [UpdateDataSource dsp], Done (Inr (arn, n))))
          \<and> (\<forall>c m. c \<noteq> ''NotFoundException'' \<longrightarrow>
               feed (deployAppSyncDataSource config p) (found p ra la @ [Failure c m])
                 = (lookups p @ [UpdateDataSource dsp], Done (Inl (AwsError c m))))
          \<and> (\<forall>m arn n.
               feed (deployAppSyncDataSource config p)
                   (found p ra la @ [Failure ''NotFoundException'' m, DataSourceRes arn n])
                 = (lookups p @ [UpdateDataSource dsp, CreateDataSource dsp], Done (Inr (arn, n))))
          \<and> (\<forall>m c' m'. \<not> name_taken c' m' \<longrightarrow>
               feed (deployAppSyncDataSource config p)
                   (found p ra la @ [Failure ''NotFoundException'' m, Failure c' m'])
                 = (lookups p @ [UpdateDataSource dsp, CreateDataSource dsp], Done (Inl (AwsError c' m'))))
          \<and> (\<forall>m c' m' arn n. name_taken c' m' \<longrightarrow>
               feed (deployAppSyncDataSource config p)
                   (found p ra la @ [Failure ''NotFoundException'' m, Failure c' m', DataSourceRes arn n])
                 = (lookups p @ [UpdateDataSource dsp, CreateDataSource dsp, UpdateDataSource dsp],
                    Done (Inr (arn, n))))
          \<and> (\<forall>m c' m' c'' m''. name_taken c' m' \<longrightarrow>
               feed (deployAppSyncDataSource config p)
                   (found p ra la @ [Failure ''NotFoundException'' m, Failure c' m', Failure c'' m''])
                 = (lookups p @ [UpdateDataSource dsp, CreateDataSource dsp, UpdateDataSource dsp],
                    Done (Inl (AwsError c'' m''))))"
    by (rule exI [of _ dsp]) (simp add: dsp provision_cases del: feed.simps)
next
  show "\<forall>rs qs e. feed (deployAppSyncDataSource config p) rs = (qs, Done (Inl e)) \<longrightarrow>
            feed (map_task VResponse (deployAppSyncResolver config p)) rs = (qs, Done (Inl e))"
  proof (intro allI impI)
    fix rs qs e
    assume "feed (deployAppSyncDataSource config p) rs = (qs, Done (Inl e))"
    then have "feed (deployAppSyncResolver config p) rs = (qs, Done (Inl e))"
      unfolding deployAppSyncResolver_def by (rule feed_bind_error)
    then show "feed (map_task VResponse (deployAppSyncResolver config p)) rs = (qs, Done (Inl e))"
      by (rule feed_map_error)
  qed
next
  show "\<forall>u q e. length (heap st) \<le> u \<and> u < length (heap st') \<and> Issue u q \<in> set (trace st')
                   \<and> upsert_call q \<and> heap st' ! u = Done (Inl e) \<longrightarrow>
            (\<exists>e'. out = Threw e')
            \<and> (\<forall>ev \<in> set (trace st'). length (heap st) \<le> pid ev \<longrightarrow> \<not> data_source_delete (req ev))"
  proof (intro allI impI)
    fix u q e
    assume "length (heap st) \<le> u \<and> u < length (heap st') \<and> Issue u q \<in> set (trace st')
                   \<and> upsert_call q \<and> heap st' ! u = Done (Inl e)"
    then have "length (heap st) \<le> u" "u < length (heap st')" "Issue u q \<in> set (trace st')"
      "upsert_call q" "heap st' ! u = Done (Inl e)"
      by simp_all
    then show "(\<exists>e'. out = Threw e')
            \<and> (\<forall>ev \<in> set (trace st'). length (heap st) \<le> pid ev \<longrightarrow> \<not> data_source_delete (req ev))"
      by (rule rejected_upsert_aborts [OF assms(2,3)])
  qed
qed

theorem provision_update_create_update_witness:
  "(\<exists>dsp. ds_apiId dsp = ''api'' \<and> ds_serviceRoleArn dsp = ''arn:role''
      \<and> feed (deployAppSyncDataSource cfg (spread (Object (lambda_spec ''usersFn'')) ''api'' ''role'' ''Query'' ''getUser''))
          [ArnFound ''arn:role'', ArnFound ''arn:lambda'', Failure ''NotFoundException'' ''no such data source'',
           Failure ''LimitExceededException'' ''too many data sources'']
        = ([GetRoleArn ''role'', GetLambdaArn ''usersFn'', UpdateDataSource dsp, CreateDataSource dsp],
           Done (Inl (AwsError ''LimitExceededException'' ''too many data sources''))))
   \<and> heap (fst (snd run_full)) ! 3 = Done (Inl (AwsError ''LimitExceededException'' ''too many data sources''))
   \<and> (\<exists>e'. fst run_full = Threw e')
   \<and> filter (\<lambda>ev. data_source_delete (req ev)) (trace (fst (snd run_full))) = []"
proof -
  let ?p = "spread (Object (lambda_spec ''usersFn'')) ''api'' ''role'' ''Query'' ''getUser''"
  let ?e = "AwsError ''LimitExceededException'' ''too many data sources''"
  have src: "truthy (lambda ?p) \<or> truthy (table ?p) \<or> authorizationConfig ?p \<noteq> None \<or> truthy (endpoint ?p)
           \<or> (truthy (relationalDatabaseSourceType ?p) \<and> (truthy (name ?p) \<or> database ?p \<noteq> None))"
    by code_simp
  have run: "attempt remote_full cfg (Some ''api'') (Some ''role'') desired1 init (replicate 9 0)
               = (fst run_full, fst (snd run_full), snd (snd run_full))"
    by (simp add: run_full_def)
  have other: "\<not> name_taken ''LimitExceededException'' ''too many data sources''"
    by (simp add: name_taken_def)
  have f: "found ?p ''arn:role'' ''arn:lambda'' = [ArnFound ''arn:role'', ArnFound ''arn:lambda'']"
    by code_simp
  have l: "lookups ?p = [GetRoleArn ''role'', GetLambdaArn ''usersFn'']"
    by code_simp
  have a: "apiId ?p = ''api''"
    by code_simp
  have u: "length (heap init) \<le> 3" "3 < length (heap (fst (snd run_full)))"
    "Issue 3 (GetRoleArn ''role'') \<in> set (trace (fst (snd run_full)))"
    "upsert_call (GetRoleArn ''role'')"
    by code_simp+
  have "case heap (fst (snd run_full)) ! 3 of Done (Inl e) \<Rightarrow> e = ?e | _ \<Rightarrow> False"
    by code_simp
  then have r: "heap (fst (snd run_full)) ! 3 = Done (Inl ?e)"
    by (auto split: task.splits sum.splits)
  have h: "length (heap init) = 0"
    by (simp add: init_def)
  note T = provision_update_create_update [OF src run consistent_init, of "''arn:role''" cfg "''arn:lambda''"]
  from T obtain dsp where d: "ds_apiId dsp = apiId ?p" "ds_serviceRoleArn dsp = ''arn:role''"
    "\<forall>m c' m'. \<not> name_taken c' m' \<longrightarrow>
       feed (deployAppSyncDataSource cfg ?p)
           (found ?p ''arn:role'' ''arn:lambda'' @ [Failure ''NotFoundException'' m, Failure c' m'])
         = (lookups ?p @ [UpdateDataSource dsp, CreateDataSource dsp], Done (Inl (AwsError c' m')))"
    by (elim conjE exE) (rule that)
  from d(3) other have "feed (deployAppSyncDataSource cfg ?p)
           (found ?p ''arn:role'' ''arn:lambda'' @ [Failure ''NotFoundException'' ''no such data source'',
              Failure ''LimitExceededException'' ''too many data sources''])
         = (lookups ?p @ [UpdateDataSource dsp, CreateDataSource dsp], Done (Inl ?e))"
    by blast
  then have "feed (deployAppSyncDataSource cfg ?p)
          [ArnFound ''arn:role'', ArnFound ''arn:lambda'', Failure ''NotFoundException'' ''no such data source'',
           Failure ''LimitExceededException'' ''too many data sources'']
        = ([GetRoleArn ''role'', GetLambdaArn ''usersFn'', UpdateDataSource dsp, CreateDataSource dsp], Done (Inl ?e))"
    unfolding f l by simp
  with d(1,2) have "\<exists>dsp. ds_apiId dsp = ''api'' \<and> ds_serviceRoleArn dsp = ''arn:role''
      \<and> feed (deployAppSyncDataSource cfg ?p)
          [ArnFound ''arn:role'', ArnFound ''arn:lambda'', Failure ''NotFoundException'' ''no such data source'',
           Failure ''LimitExceededException'' ''too many data sources'']
        = ([GetRoleArn ''role'', GetLambdaArn ''usersFn'', UpdateDataSource dsp, CreateDataSource dsp], Done (Inl ?e))"
    unfolding a by blast
  moreover from T u r have "(\<exists>e'. fst run_full = Threw e')
       \<and> (\<forall>ev \<in> set (trace (fst (snd run_full))). \<not> data_source_delete (req ev))"
    unfolding h by blast
  ultimately show ?thesis
    using r by (simp add: filter_empty_conv)
qed

text \<open>
  C5. The kind of the data source is decided by the first field that is present, in the
  order function, table, authorization configuration, endpoint, relational source type
  (present: truthy, so an empty string counts as absent); a specification with none of
  them fails, once the role has been looked up, with the error that names its type and
  field. In particular a specification with a function and a table is function-backed.
\<close>

theorem classification_priority:
  \<open>(truthy (lambda p) \<longrightarrow>
      (\<exists>dsp. fst (feed (deployAppSyncDataSource config p) [ArnFound ra, ArnFound la])
                = [GetRoleArn (roleName p), GetLambdaArn (the (lambda p)), UpdateDataSource dsp]
             \<and> ds_type dsp = AWS_LAMBDA
             \<and> ds_name dsp = Some (filter alphanumeric (the (lambda p)))))
   \<and> (\<not> truthy (lambda p) \<and> truthy (table p) \<longrightarrow>
      (\<exists>dsp. fst (feed (deployAppSyncDataSource config p) [ArnFound ra])
                = [GetRoleArn (roleName p), UpdateDataSource dsp]
             \<and> ds_type dsp = AMAZON_DYNAMODB
             \<and> ds_name dsp = Some (filter alphanumeric (the (table p)))))
   \<and> (\<not> truthy (lambda p) \<and> \<not> truthy (table p) \<and> authorizationConfig p \<noteq> None \<longrightarrow>
      (\<exists>dsp. fst (feed (deployAppSyncDataSource config p) [ArnFound ra])
                = [GetRoleArn (roleName p), UpdateDataSource dsp]
             \<and> ds_type dsp = HTTP \<and> ds_name dsp = name p))
   \<and> (\<not> truthy (lambda p) \<and> \<not> truthy (table p) \<and> authorizationConfig p = None
        \<and> truthy (endpoint p) \<longrightarrow>
      (\<exists>dsp. fst (feed (deployAppSyncDataSource config p) [ArnFound ra])
                = [GetRoleArn (roleName p), UpdateDataSource dsp]
             \<and> ds_type dsp = AMAZON_ELASTICSEARCH \<and> ds_name dsp = name p))
   \<and> (\<not> truthy (lambda p) \<and> \<not> truthy (table p) \<and> authorizationConfig p = None
        \<and> \<not> truthy (endpoint p) \<and> truthy (relationalDatabaseSourceType p)
        \<and> (truthy (name p) \<or> database p \<noteq> None) \<longrightarrow>
      (\<exists>dsp. fst (feed (deployAppSyncDataSource config p) [ArnFound ra])
                = [GetRoleArn (roleName p), UpdateDataSource dsp]
             \<and> ds_type dsp = RELATIONAL_DATABASE))
   \<and> (\<not> truthy (lambda p) \<and> \<not> truthy (table p) \<and> authorizationConfig p = None
        \<and> \<not> truthy (endpoint p) \<and> \<not> truthy (relationalDatabaseSourceType p) \<longrightarrow>
      feed (deployAppSyncDataSource config p) [ArnFound ra]
        = ([GetRoleArn (roleName p)],
           Done (Inl (Error (''Please specify a data source for resolver "'' @ type p @ ''.'' @ field p @ ''"'')))))\<close>
proof -
  have lam: "truthy (lambda p) \<Longrightarrow> \<exists>l. lambda p = Some l \<and> l \<noteq> []"
    by (cases "lambda p") (auto simp: truthy_def)
  have tab: "truthy (table p) \<Longrightarrow> \<exists>l. table p = Some l \<and> l \<noteq> []"
    by (cases "table p") (auto simp: truthy_def)
  show ?thesis
    by (intro conjI impI)
       (auto simp: deployAppSyncDataSource_def getRoleArn_def getLambdaArn_def dataSourceParams_def
          provisionDataSource_def getDataSourceName_def task_defs
          dest!: lam tab split: option.splits)
qed

theorem classification_priority_witness:
  "\<exists>dsp. fst (feed (deployAppSyncDataSource cfg both_spec) [ArnFound ''r'', ArnFound ''l''])
            = [GetRoleArn ''role'', GetLambdaArn ''users-fn'', UpdateDataSource dsp]
         \<and> ds_type dsp = AWS_LAMBDA
         \<and> ds_name dsp = Some ''usersfn''"
proof -
  have t: "truthy (lambda both_spec)"
    by (simp add: both_spec_def spread_def no_spec_def truthy_def resolver_spec.defs params.defs)
  have "lambda both_spec = Some ''users-fn''" "roleName both_spec = ''role''"
    by (simp_all add: both_spec_def spread_def no_spec_def truthy_def resolver_spec.defs params.defs)
  moreover have "filter alphanumeric ''users-fn'' = ''usersfn''"
    by (simp add: alphanumeric_def)
  ultimately show ?thesis
    using classification_priority [of both_spec cfg "''r''" "''l''"] t
    by simp
qed

section \<open>Validation and the null input\<close>




text \<open>
  C10, as amended. With \<^verbatim>\<open>resolvers: null\<close> the three checks at the top pass and no
  validation error is ever thrown. When the snapshot lists no resolver, the run proceeds
  as for an empty desired state: it issues a \<^verbatim>\<open>deleteDataSource\<close> for every existing
  data source, in the order of the listing. When the snapshot lists a resolver, the read
  \<^verbatim>\<open>resolvers[type]\<close> of line 306 throws a \<^verbatim>\<open>TypeError\<close>: the run ends in the state the
  snapshot left, and nothing is scheduled for deletion.
\<close>

theorem null_resolvers:
  assumes "truthy apiId'" "truthy roleName'" "consistent st"
      and "attempt env config apiId' roleName' Null st sched = (out, st', sched')"
      and "snapshot env config (the apiId') st sched
             = (Resolved [VResolvers q, VResolvers m, VNames names], st1, sched1)"
  shows "(\<forall>e. out = Threw e \<longrightarrow> \<not> validation_error e)
       \<and> (q = [] \<and> m = [] \<longrightarrow>
            (\<exists>E. trace st' = trace st1 @ deletes_from (the apiId') (length (heap st1)) names @ E))
       \<and> (q \<noteq> [] \<or> m \<noteq> [] \<longrightarrow> st' = st1 \<and> (\<exists>msg. out = Threw (TypeError msg)))"
proof (intro conjI allI impI)
  fix e assume "out = Threw e"
  with assms(4) have "attempt env config apiId' roleName' Null st sched = (Threw e, st', sched')"
    by simp
  from attempt_threw [OF this assms(3)] shape_ok_Null [OF assms(1,2), of config]
  show "\<not> validation_error e" by auto
next
  from assms(1,2,4,5) have R: "reconcile env config (the apiId') (the roleName') Null
      [(''Query'', q), (''Mutation'', m)] names st1 sched1 = (out, st', sched')"
    by (simp add: attempt_def)
  {
    assume "q = [] \<and> m = []"
    with R show "\<exists>E. trace st' = trace st1 @ deletes_from (the apiId') (length (heap st1)) names @ E"
      by (auto dest: reconcile_Null_empty)
  }
  {
    assume "q \<noteq> [] \<or> m \<noteq> []"
    from reconcile_Null_nonempty [OF this, of env config "the apiId'" "the roleName'" names st1 sched1] R
    show "st' = st1" "\<exists>msg. out = Threw (TypeError msg)"
      by auto
  }
qed

theorem null_resolvers_witness:
  "(\<exists>E. trace (fst (snd run_null_ds))
         = trace (fst (snd (snapshot remote_ds cfg ''api'' init (replicate 5 0))))
           @ [Issue 3 (DeleteDataSource ''api'' ''usersFn''), Issue 4 (DeleteDataSource ''api'' ''old'')] @ E)
   \<and> (\<exists>msg. fst run_null = Threw (TypeError msg))
   \<and> fst (snd run_null) = fst (snd (snapshot remote1 cfg ''api'' init (replicate 3 0)))"
proof -
  let ?s = "snapshot remote_ds cfg ''api'' init (replicate 5 0)"
  let ?s1 = "snapshot remote1 cfg ''api'' init (replicate 3 0)"
  have t: "truthy (Some ''api'')" "truthy (Some ''role'')"
    by (simp_all add: truthy_def)
  have A: "attempt remote_ds cfg (Some ''api'') (Some ''role'') Null init (replicate 5 0)
             = (fst run_null_ds, fst (snd run_null_ds), snd (snd run_null_ds))"
    by (simp add: run_null_ds_def)
  have "fst ?s = Resolved [VResolvers [], VResolvers [], VNames [''usersFn'', ''old'']]"
    by code_simp
  then have S: "snapshot remote_ds cfg (the (Some ''api'')) init (replicate 5 0)
             = (Resolved [VResolvers [], VResolvers [], VNames [''usersFn'', ''old'']],
                fst (snd ?s), snd (snd ?s))"
    by (simp add: prod_eq_iff)
  have len: "length (heap (fst (snd ?s))) = 3"
    by code_simp
  have A1: "attempt remote1 cfg (Some ''api'') (Some ''role'') Null init (replicate 3 0)
             = (fst run_null, fst (snd run_null), snd (snd run_null))"
    by (simp add: run_null_def)
  have "fst ?s1 = Resolved [VResolvers [],
      VResolvers [(''deleteUser'', \<lparr>fieldName = ''deleteUser'', dataSourceName = ''old''\<rparr>)],
      VNames [''usersFn'', ''old'']]"
    by code_simp
  then have S1: "snapshot remote1 cfg (the (Some ''api'')) init (replicate 3 0)
             = (Resolved [VResolvers [],
                  VResolvers [(''deleteUser'', \<lparr>fieldName = ''deleteUser'', dataSourceName = ''old''\<rparr>)],
                  VNames [''usersFn'', ''old'']],
                fst (snd ?s1), snd (snd ?s1))"
    by (simp add: prod_eq_iff)
  from null_resolvers [OF t consistent_init A S]
  have "\<exists>E. trace (fst (snd run_null_ds))
         = trace (fst (snd ?s)) @ deletes_from ''api'' 3 [''usersFn'', ''old''] @ E"
    unfolding len by simp
  moreover have "deletes_from ''api'' 3 [''usersFn'', ''old'']
      = [Issue 3 (DeleteDataSource ''api'' ''usersFn''), Issue 4 (DeleteDataSource ''api'' ''old'')]"
    by code_simp
  moreover from null_resolvers [OF t consistent_init A1 S1]
  have "fst (snd run_null) = fst (snd ?s1) \<and> (\<exists>msg. fst run_null = Threw (TypeError msg))"
    by simp
  ultimately show ?thesis by simp
qed

text \<open>C10, the counterexample: with \<^verbatim>\<open>resolvers: null\<close> and one existing resolver, the
  run ends with a \<^verbatim>\<open>TypeError\<close> at line 306 and has scheduled no deletion at all.\<close>

theorem null_resolvers_type_error:
  "fst run_null = Threw (TypeError ''Cannot read properties of null (reading 'Mutation')'')
   \<and> filter (\<lambda>ev. is_issue ev \<and> mutating (req ev)) (trace (fst (snd run_null))) = []"
  by code_simp

section \<open>Where the code departs from the claims\<close>

text \<open>
  C1. Two desired resolvers whose specifications are equal up to type, field and
  templates should share one provisioning of their data source. The memoised
  \<^verbatim>\<open>deployAppSyncDataSourceCached\<close> exists for that (lines 200 to 209), but
  \<^verbatim>\<open>deployAppSyncResolver\<close> calls \<^verbatim>\<open>deployAppSyncDataSource\<close> itself (line 212). In the
  run below the two resolvers have the same key, and \<^verbatim>\<open>updateDataSource\<close> is issued
  twice with the same payload, once by each resolver's promise.
\<close>

theorem shared_data_source_provisioned_twice:
  "cacheKey (spread (Object shared_a) ''api'' ''role'' ''Query'' ''a'')
     = cacheKey (spread (Object shared_b) ''api'' ''role'' ''Query'' ''b'')
   \<and> fst run_shared = Returned
   \<and> filter (\<lambda>ev. is_issue ev \<and> (case req ev of UpdateDataSource d \<Rightarrow> True | _ \<Rightarrow> False))
        (trace (fst (snd run_shared)))
     = [Issue 3 (UpdateDataSource shared_payload), Issue 4 (UpdateDataSource shared_payload)]"
  by code_simp

text \<open>
  C2. A data source that a desired resolver is provisioned under should never be
  deleted. The provisioner registers an HTTP, search or relational data source under
  \<^verbatim>\<open>params.name\<close> as it is (lines 130, 144 and 152), while \<^verbatim>\<open>getDataSourcesNames\<close>
  strips the non-alphanumeric characters of that name (line 250). In the run below the
  resolver \<^verbatim>\<open>Query.ping\<close> is desired with the data source \<^verbatim>\<open>my_ds\<close>: the run updates the
  data source \<^verbatim>\<open>my_ds\<close>, binds the resolver to it, and then deletes \<^verbatim>\<open>my_ds\<close>.
\<close>

theorem referenced_data_source_deleted:
  "fst run_http = Returned
   \<and> filter (\<lambda>ev. is_issue ev \<and> (data_source_delete (req ev)
                \<or> (case req ev of UpdateDataSource d \<Rightarrow> True | _ \<Rightarrow> False)))
        (trace (fst (snd run_http)))
     = [Issue 3 (UpdateDataSource http_payload), Issue 4 (DeleteDataSource ''api'' ''my_ds'')]
   \<and> getDataSourcesNames desired_http = (None, [''myds''])"
  by code_simp


end
